theory Spec2Isabelle
  imports Main "HOL-Library.Signed_Division"
begin

section \<open>The TA office simulation (ta\_simulation.c)\<close>

text \<open>
  The program is one TA thread and \<open>NUM_STUDENTS\<close> student threads that share four
  POSIX semaphores, one mutex and one counter. It is embedded as an interleaving
  transition system: every statement of a thread function that touches a shared
  object is one atomic step, a thread is identified by an \<open>actor\<close>, and a schedule is
  the list of actors in the order in which they perform their next statement. A
  \<open>sem_wait\<close> on a semaphore of value 0 and a \<open>pthread_mutex_lock\<close> on a held mutex
  are blocked: the step function returns \<open>None\<close> for them. The \<open>printf\<close> calls have
  no effect on the shared objects and are left out. The source holds the program twice,
  once with English and once with Persian messages; the statements are the same, and
  line numbers refer to the first copy.
\<close>

subsection \<open>The utility function \<open>random_int\<close> (lines 27--34)\<close>

text \<open>
  C \<open>int\<close> is the 32-bit two's complement range. Signed overflow and division by zero
  are undefined behaviour in C: the model returns them as faults. \<open>%\<close> truncates
  towards zero, which is \<open>smod\<close> on \<open>int\<close>. The value returned by \<open>rand()\<close> is
  the parameter \<open>r\<close>. The faults follow the evaluation order of line 33: the
  subtraction, the addition of 1, the remainder, the addition of \<open>min\<close>.
\<close>

definition INT_MAX :: int where
  "INT_MAX = 2147483647"

definition INT_MIN :: int where
  "INT_MIN = - 2147483648"

definition in_int_range :: "int \<Rightarrow> bool" where
  "in_int_range x = (INT_MIN \<le> x \<and> x \<le> INT_MAX)"

datatype c_fault = SignedOverflow | DivisionByZero

definition random_int :: "int \<Rightarrow> int \<Rightarrow> int \<Rightarrow> c_fault + int" where
  "random_int r mn mx =
     (let lo = (if mn > mx then mx else mn);
          hi = (if mn > mx then mn else mx)
      in if \<not> in_int_range (hi - lo) \<or> \<not> in_int_range (hi - lo + 1) then Inl SignedOverflow
         else if hi - lo + 1 = 0 then Inl DivisionByZero
         else if r = INT_MIN \<and> hi - lo + 1 = - 1 then Inl SignedOverflow
         else if \<not> in_int_range (r smod (hi - lo + 1) + lo) then Inl SignedOverflow
         else Inr (r smod (hi - lo + 1) + lo))"

subsection \<open>Shared objects and thread locations\<close>

datatype sem_name =
  waiting_room_chairs | student_present_for_ta | ta_ready_for_student | consultation_finished

text \<open>The operation a step performs on the shared objects.\<close>

datatype sync_op =
  Sleep | MutexLock | MutexUnlock | ReadCount | IncCount | DecCount
  | SemWait sem_name | SemPost sem_name

text \<open>
  A student's location is the statement of \<open>student_thread_func\<close> it executes next:
  \<open>S_Arrive\<close> line 65, \<open>S_Lock\<close> line 68, \<open>S_Check\<close> line 69, \<open>S_Inc\<close> line 70,
  \<open>S_TakeChair\<close> line 71, \<open>S_Unlock\<close> line 73, \<open>S_Announce\<close> line 76,
  \<open>S_AwaitTA\<close> line 78, \<open>S_LeaveChair\<close> line 81, \<open>S_Lock2\<close> line 83, \<open>S_Dec\<close>
  line 84, \<open>S_Unlock2\<close> line 85, \<open>S_Consult\<close> line 88, \<open>S_Served\<close> the exit after
  line 90, \<open>S_BalkUnlock\<close> line 94, \<open>S_Balked\<close> the exit after line 95.
\<close>

datatype student_loc =
  S_Arrive | S_Lock | S_Check | S_Inc | S_TakeChair | S_Unlock | S_Announce | S_AwaitTA
  | S_LeaveChair | S_Lock2 | S_Dec | S_Unlock2 | S_Consult | S_Served
  | S_BalkUnlock | S_Balked

text \<open>
  The TA's location in the loop of \<open>ta_thread_func\<close>: \<open>T_Wait\<close> line 42, \<open>T_Call\<close>
  line 46, \<open>T_Help\<close> lines 48--50, \<open>T_Finish\<close> line 53.
\<close>

datatype ta_loc = T_Wait | T_Call | T_Help | T_Finish

text \<open>\<open>Student i\<close> is the thread created in iteration \<open>i\<close> of the loop of \<open>main\<close>
  (its printed id is \<open>i + 1\<close>).\<close>

datatype actor = TA | Student nat

record state =
  waiting_room_chairs_sem :: nat
  student_present_for_ta_sem :: nat
  ta_ready_for_student_sem :: nat
  consultation_finished_sem :: nat
  count_mutex :: "nat option"
  num_students_in_chairs :: int
  ta_at :: ta_loc
  student_at :: "student_loc list"

subsection \<open>The primitives\<close>

definition sem_wait :: "nat \<Rightarrow> nat option" where
  "sem_wait v = (if v = 0 then None else Some (v - 1))"

definition sem_post :: "nat \<Rightarrow> nat" where
  "sem_post v = v + 1"

definition pthread_mutex_lock :: "nat option \<Rightarrow> nat \<Rightarrow> nat option option" where
  "pthread_mutex_lock m i = (case m of None \<Rightarrow> Some (Some i) | Some j \<Rightarrow> None)"

definition pthread_mutex_unlock :: "nat option \<Rightarrow> nat option" where
  "pthread_mutex_unlock m = None"

definition goto :: "nat \<Rightarrow> student_loc \<Rightarrow> state \<Rightarrow> state" where
  "goto i l s = s\<lparr>student_at := (student_at s)[i := l]\<rparr>"

subsection \<open>The thread functions, one statement per step\<close>

definition ta_thread_func :: "state \<Rightarrow> (sync_op \<times> state) option" where
  "ta_thread_func s =
     (case ta_at s of
        T_Wait \<Rightarrow>
          (case sem_wait (student_present_for_ta_sem s) of
             None \<Rightarrow> None
           | Some v \<Rightarrow> Some (SemWait student_present_for_ta,
                        s\<lparr>student_present_for_ta_sem := v, ta_at := T_Call\<rparr>))
      | T_Call \<Rightarrow>
          Some (SemPost ta_ready_for_student,
                s\<lparr>ta_ready_for_student_sem := sem_post (ta_ready_for_student_sem s),
                  ta_at := T_Help\<rparr>)
      | T_Help \<Rightarrow> Some (Sleep, s\<lparr>ta_at := T_Finish\<rparr>)
      | T_Finish \<Rightarrow>
          Some (SemPost consultation_finished,
                s\<lparr>consultation_finished_sem := sem_post (consultation_finished_sem s),
                  ta_at := T_Wait\<rparr>))"

definition student_thread_func :: "int \<Rightarrow> nat \<Rightarrow> state \<Rightarrow> (sync_op \<times> state) option" where
  "student_thread_func C i s =
     (case student_at s ! i of
        S_Arrive \<Rightarrow> Some (Sleep, goto i S_Lock s)
      | S_Lock \<Rightarrow>
          (case pthread_mutex_lock (count_mutex s) i of
             None \<Rightarrow> None
           | Some m \<Rightarrow> Some (MutexLock, goto i S_Check (s\<lparr>count_mutex := m\<rparr>)))
      | S_Check \<Rightarrow>
          Some (ReadCount,
                goto i (if num_students_in_chairs s < C then S_Inc else S_BalkUnlock) s)
      | S_Inc \<Rightarrow>
          Some (IncCount,
                goto i S_TakeChair (s\<lparr>num_students_in_chairs := num_students_in_chairs s + 1\<rparr>))
      | S_TakeChair \<Rightarrow>
          (case sem_wait (waiting_room_chairs_sem s) of
             None \<Rightarrow> None
           | Some v \<Rightarrow> Some (SemWait waiting_room_chairs,
                        goto i S_Unlock (s\<lparr>waiting_room_chairs_sem := v\<rparr>)))
      | S_Unlock \<Rightarrow>
          Some (MutexUnlock,
                goto i S_Announce (s\<lparr>count_mutex := pthread_mutex_unlock (count_mutex s)\<rparr>))
      | S_Announce \<Rightarrow>
          Some (SemPost student_present_for_ta,
                goto i S_AwaitTA
                  (s\<lparr>student_present_for_ta_sem := sem_post (student_present_for_ta_sem s)\<rparr>))
      | S_AwaitTA \<Rightarrow>
          (case sem_wait (ta_ready_for_student_sem s) of
             None \<Rightarrow> None
           | Some v \<Rightarrow> Some (SemWait ta_ready_for_student,
                        goto i S_LeaveChair (s\<lparr>ta_ready_for_student_sem := v\<rparr>)))
      | S_LeaveChair \<Rightarrow>
          Some (SemPost waiting_room_chairs,
                goto i S_Lock2
                  (s\<lparr>waiting_room_chairs_sem := sem_post (waiting_room_chairs_sem s)\<rparr>))
      | S_Lock2 \<Rightarrow>
          (case pthread_mutex_lock (count_mutex s) i of
             None \<Rightarrow> None
           | Some m \<Rightarrow> Some (MutexLock, goto i S_Dec (s\<lparr>count_mutex := m\<rparr>)))
      | S_Dec \<Rightarrow>
          Some (DecCount,
                goto i S_Unlock2 (s\<lparr>num_students_in_chairs := num_students_in_chairs s - 1\<rparr>))
      | S_Unlock2 \<Rightarrow>
          Some (MutexUnlock,
                goto i S_Consult (s\<lparr>count_mutex := pthread_mutex_unlock (count_mutex s)\<rparr>))
      | S_Consult \<Rightarrow>
          (case sem_wait (consultation_finished_sem s) of
             None \<Rightarrow> None
           | Some v \<Rightarrow> Some (SemWait consultation_finished,
                        goto i S_Served (s\<lparr>consultation_finished_sem := v\<rparr>)))
      | S_Served \<Rightarrow> None
      | S_BalkUnlock \<Rightarrow>
          Some (MutexUnlock,
                goto i S_Balked (s\<lparr>count_mutex := pthread_mutex_unlock (count_mutex s)\<rparr>))
      | S_Balked \<Rightarrow> None)"

text \<open>One step of the system: the scheduled actor performs its next statement, or the
  step is \<open>None\<close> when that actor is blocked, has exited or was never created.\<close>

definition step :: "int \<Rightarrow> state \<Rightarrow> actor \<Rightarrow> (sync_op \<times> state) option" where
  "step C s a =
     (case a of
        TA \<Rightarrow> ta_thread_func s
      | Student i \<Rightarrow> if i < length (student_at s) then student_thread_func C i s else None)"

text \<open>Running a schedule: the trace of who did what, and the state reached. A schedule
  that picks a blocked actor is not an execution (\<open>None\<close>).\<close>

fun run :: "int \<Rightarrow> state \<Rightarrow> actor list \<Rightarrow> ((actor \<times> sync_op) list \<times> state) option" where
  "run C s [] = Some ([], s)"
| "run C s (a # sched) =
     (case step C s a of
        None \<Rightarrow> None
      | Some (e, s') \<Rightarrow>
          (case run C s' sched of
             None \<Rightarrow> None
           | Some (tr, s'') \<Rightarrow> Some ((a, e) # tr, s'')))"

text \<open>
  The state \<open>main\<close> sets up (lines 110--116 and the initialiser of line 23) with \<open>C\<close>
  for \<open>MAX_CHAIRS\<close> and \<open>n\<close> student threads, each before its first statement.
  \<open>sem_init\<close> takes an unsigned value; for \<open>0 \<le> C\<close> it is \<open>nat C\<close>, and the
  properties of executions below assume \<open>0 \<le> C\<close> where the capacity matters. The
  counter is a C \<open>int\<close>, modelled as an unbounded \<open>int\<close>: it is shown to stay between 0
  and \<open>C\<close>, so that no increment or decrement of it can overflow.
\<close>

definition init :: "int \<Rightarrow> nat \<Rightarrow> state" where
  "init C n =
     \<lparr>waiting_room_chairs_sem = nat C,
      student_present_for_ta_sem = 0,
      ta_ready_for_student_sem = 0,
      consultation_finished_sem = 0,
      count_mutex = None,
      num_students_in_chairs = 0,
      ta_at = T_Wait,
      student_at = replicate n S_Arrive\<rparr>"

subsection \<open>\<open>main\<close> (lines 102--171)\<close>

text \<open>
  \<open>main\<close> initialises the shared objects, creates the TA thread and then, in a loop
  over \<open>i = 0 .. NUM_STUDENTS - 1\<close>, allocates an id and creates a student thread.
  Whether \<open>malloc\<close> and \<open>pthread_create\<close> succeed is decided by the environment:
  \<open>malloc_fails\<close> and \<open>create_fails\<close> list the loop indices at which they fail. The
  loop skips a student whose allocation or creation fails.
\<close>

function create_students :: "int \<Rightarrow> int \<Rightarrow> int list \<Rightarrow> int list \<Rightarrow> actor list" where
  "create_students i N malloc_fails create_fails =
     (if i < N then
        (if i \<in> set malloc_fails then create_students (i + 1) N malloc_fails create_fails
         else if i \<in> set create_fails then create_students (i + 1) N malloc_fails create_fails
         else Student (nat i) # create_students (i + 1) N malloc_fails create_fails)
      else [])"
  by pat_completeness auto
termination
  by (relation "measure (\<lambda>(i, N, mf, cf). nat (N - i))") auto

text \<open>
  The start-up part of \<open>main\<close> (lines 102--143), with \<open>C\<close> for \<open>MAX_CHAIRS\<close> and \<open>N\<close> for
  \<open>NUM_STUDENTS\<close>.
  \<^item> \<open>No_Program\<close>: for \<open>N < 0\<close> the array declaration of line 104 has a negative
    constant size, which is not C: there is nothing to run.
  \<^item> \<open>Exit_Status 1\<close>: the return of line 124, when the TA thread cannot be created.
  \<^item> \<open>Undefined_Semaphore\<close>: \<open>sem_init\<close> takes an unsigned value and fails (EINVAL)
    for a value above \<open>SEM_VALUE_MAX\<close>, which is \<open>INT_MAX\<close>; a negative \<open>C\<close> converts to
    such a value. Line 110 ignores the result, so the threads are started on a
    semaphore that was never initialised, which POSIX leaves undefined.
  \<^item> \<open>Started\<close>: the shared state set up and the threads started, after which \<open>main\<close>
    enters the join loop. The state has one location for each loop index; a student that
    was not started never takes a step.
\<close>

datatype startup =
  No_Program | Exit_Status int | Undefined_Semaphore | Started state "actor list"

definition main :: "int \<Rightarrow> int \<Rightarrow> bool \<Rightarrow> int list \<Rightarrow> int list \<Rightarrow> startup" where
  "main C N ta_created malloc_fails create_fails =
     (if N < 0 then No_Program
      else if \<not> ta_created then Exit_Status 1
      else if C < 0 \<or> INT_MAX < C then Undefined_Semaphore
      else Started (init C (nat N)) (TA # create_students 0 N malloc_fails create_fails))"

text \<open>
  The rest of \<open>main\<close> (lines 145--170): the join loop over \<open>i = 0 .. NUM_STUDENTS - 1\<close>
  and the return. \<open>pthread_join\<close> returns once the thread has exited, and an exited
  thread stays exited, so the loop is evaluated on a state \<open>s\<close> of the threads:
  \<open>Joining i\<close> when \<open>main\<close> is blocked on a student that has not exited in \<open>s\<close>,
  \<open>Returned 0\<close> (line 170) when every student has exited. Where allocation or creation
  failed, \<open>student_threads[i]\<close> was never written: line 149 reads an indeterminate
  value (\<open>Indeterminate_Id i\<close>). The TA is never joined.
\<close>

datatype join_outcome = Joining nat | Indeterminate_Id nat | Returned int

function main_join :: "int \<Rightarrow> int \<Rightarrow> int list \<Rightarrow> int list \<Rightarrow> state \<Rightarrow> join_outcome" where
  "main_join i N malloc_fails create_fails s =
     (if i < N then
        (if i \<in> set malloc_fails \<or> i \<in> set create_fails
            \<or> length (student_at s) \<le> nat i then Indeterminate_Id (nat i)
         else if student_at s ! nat i = S_Served \<or> student_at s ! nat i = S_Balked
         then main_join (i + 1) N malloc_fails create_fails s
         else Joining (nat i))
      else Returned 0)"
  by pat_completeness auto
termination
  by (relation "measure (\<lambda>(i, N, mf, cf, s). nat (N - i))") auto

section \<open>Notions used to state the properties\<close>

text \<open>
  Sets of student locations: \<open>holds_lock\<close> between a \<open>pthread_mutex_lock\<close> and the
  matching unlock; \<open>committed\<close> between the increment of line 70 and the decrement of
  line 84; \<open>holds_chair\<close> between the \<open>sem_wait\<close> of line 71 and the \<open>sem_post\<close> of
  line 81; \<open>announced\<close>, \<open>summoned\<close> and \<open>served\<close> after lines 76, 78 and 88.
  \<open>count_op\<close> counts an operation in a trace, \<open>ops_of\<close> projects a trace on one
  actor, and \<open>history\<close> is the sequence of operations a student has performed when
  it stands at a location.
\<close>

definition holds_lock :: "student_loc \<Rightarrow> bool" where
  "holds_lock l = (l \<in> {S_Check, S_Inc, S_TakeChair, S_Unlock, S_BalkUnlock, S_Dec, S_Unlock2})"

definition committed :: "student_loc \<Rightarrow> bool" where
  "committed l =
     (l \<in> {S_TakeChair, S_Unlock, S_Announce, S_AwaitTA, S_LeaveChair, S_Lock2, S_Dec})"

definition holds_chair :: "student_loc \<Rightarrow> bool" where
  "holds_chair l = (l \<in> {S_Unlock, S_Announce, S_AwaitTA, S_LeaveChair})"

definition count_at :: "(student_loc \<Rightarrow> bool) \<Rightarrow> state \<Rightarrow> nat" where
  "count_at P s = length (filter P (student_at s))"

definition mutex_inv :: "state \<Rightarrow> bool" where
  "mutex_inv s =
     ((\<forall>i < length (student_at s). holds_lock (student_at s ! i) \<longrightarrow> count_mutex s = Some i) \<and>
      (\<forall>i. count_mutex s = Some i \<longrightarrow> i < length (student_at s) \<and> holds_lock (student_at s ! i)))"

definition occupied_inv :: "state \<Rightarrow> bool" where
  "occupied_inv s = (num_students_in_chairs s = int (count_at committed s))"

definition chairs_inv :: "int \<Rightarrow> state \<Rightarrow> bool" where
  "chairs_inv C s = (int (waiting_room_chairs_sem s) + int (count_at holds_chair s) = C)"

definition bound_inv :: "int \<Rightarrow> state \<Rightarrow> bool" where
  "bound_inv C s =
     (num_students_in_chairs s \<le> C \<and>
      (\<forall>i < length (student_at s). student_at s ! i = S_Inc \<longrightarrow> num_students_in_chairs s < C))"

definition count_op :: "sync_op \<Rightarrow> (actor \<times> sync_op) list \<Rightarrow> nat" where
  "count_op e tr = length (filter (\<lambda>x. snd x = e) tr)"

definition ops_of :: "actor \<Rightarrow> (actor \<times> sync_op) list \<Rightarrow> sync_op list" where
  "ops_of a tr = map snd (filter (\<lambda>x. fst x = a) tr)"

definition announced :: "student_loc \<Rightarrow> bool" where
  "announced l =
     (l \<in> {S_AwaitTA, S_LeaveChair, S_Lock2, S_Dec, S_Unlock2, S_Consult, S_Served})"

definition summoned :: "student_loc \<Rightarrow> bool" where
  "summoned l = (l \<in> {S_LeaveChair, S_Lock2, S_Dec, S_Unlock2, S_Consult, S_Served})"

definition served :: "student_loc \<Rightarrow> bool" where
  "served l = (l = S_Served)"

definition ta_lockstep :: "(actor \<times> sync_op) list \<Rightarrow> state \<Rightarrow> bool" where
  "ta_lockstep tr s =
     (count_op (SemWait student_present_for_ta) tr =
        count_op (SemPost ta_ready_for_student) tr + (if ta_at s = T_Call then 1 else 0) \<and>
      count_op (SemPost ta_ready_for_student) tr =
        count_op (SemPost consultation_finished) tr +
          (if ta_at s = T_Help \<or> ta_at s = T_Finish then 1 else 0))"

definition sem_account :: "(actor \<times> sync_op) list \<Rightarrow> state \<Rightarrow> bool" where
  "sem_account tr s =
     (count_op (SemPost student_present_for_ta) tr =
        student_present_for_ta_sem s + count_op (SemWait student_present_for_ta) tr \<and>
      count_op (SemPost ta_ready_for_student) tr =
        ta_ready_for_student_sem s + count_op (SemWait ta_ready_for_student) tr \<and>
      count_op (SemPost consultation_finished) tr =
        consultation_finished_sem s + count_op (SemWait consultation_finished) tr)"

definition student_account :: "(actor \<times> sync_op) list \<Rightarrow> state \<Rightarrow> bool" where
  "student_account tr s =
     (int (count_op (SemPost student_present_for_ta) tr) = int (count_at announced s) \<and>
      int (count_op (SemWait ta_ready_for_student) tr) = int (count_at summoned s) \<and>
      int (count_op (SemWait consultation_finished) tr) = int (count_at served s))"

definition served_path :: "sync_op list" where
  "served_path =
     [Sleep, MutexLock, ReadCount, IncCount, SemWait waiting_room_chairs, MutexUnlock,
      SemPost student_present_for_ta, SemWait ta_ready_for_student,
      SemPost waiting_room_chairs, MutexLock, DecCount, MutexUnlock,
      SemWait consultation_finished]"

definition balk_path :: "sync_op list" where
  "balk_path = [Sleep, MutexLock, ReadCount, MutexUnlock]"

fun history :: "student_loc \<Rightarrow> sync_op list" where
  "history S_Arrive = []"
| "history S_Lock = take 1 served_path"
| "history S_Check = take 2 served_path"
| "history S_Inc = take 3 served_path"
| "history S_TakeChair = take 4 served_path"
| "history S_Unlock = take 5 served_path"
| "history S_Announce = take 6 served_path"
| "history S_AwaitTA = take 7 served_path"
| "history S_LeaveChair = take 8 served_path"
| "history S_Lock2 = take 9 served_path"
| "history S_Dec = take 10 served_path"
| "history S_Unlock2 = take 11 served_path"
| "history S_Consult = take 12 served_path"
| "history S_Served = served_path"
| "history S_BalkUnlock = take 3 balk_path"
| "history S_Balked = balk_path"

definition order_inv :: "(actor \<times> sync_op) list \<Rightarrow> state \<Rightarrow> bool" where
  "order_inv tr s =
     (\<forall>i < length (student_at s). ops_of (Student i) tr = history (student_at s ! i))"

definition on_balk_path :: "student_loc \<Rightarrow> bool" where
  "on_balk_path l = (l \<in> {S_Arrive, S_Lock, S_Check, S_BalkUnlock, S_Balked})"

text \<open>The number of statements a student on the balking path still has to execute.\<close>

fun remaining :: "student_loc \<Rightarrow> nat" where
  "remaining S_Arrive = 4"
| "remaining S_Lock = 3"
| "remaining S_Check = 2"
| "remaining S_BalkUnlock = 1"
| "remaining l = 0"

definition closed_inv :: "(actor \<times> sync_op) list \<Rightarrow> state \<Rightarrow> bool" where
  "closed_inv tr s =
     ((\<forall>i < length (student_at s). on_balk_path (student_at s ! i)) \<and>
      num_students_in_chairs s = 0 \<and>
      student_present_for_ta_sem s = 0 \<and>
      ta_at s = T_Wait \<and>
      (\<forall>x \<in> set tr. fst x \<noteq> TA) \<and>
      length tr + sum_list (map remaining (student_at s)) = 4 * length (student_at s))"

text \<open>
  \<open>released\<close> is after the \<open>sem_post\<close> of line 81 and \<open>decremented\<close> after the decrement
  of line 84: the releases and decrements in a trace are those of the students that
  stand there.
\<close>

definition released :: "student_loc \<Rightarrow> bool" where
  "released l = (l \<in> {S_Lock2, S_Dec, S_Unlock2, S_Consult, S_Served})"

definition decremented :: "student_loc \<Rightarrow> bool" where
  "decremented l = (l \<in> {S_Unlock2, S_Consult, S_Served})"

definition release_account :: "(actor \<times> sync_op) list \<Rightarrow> state \<Rightarrow> bool" where
  "release_account tr s =
     (int (count_op (SemPost waiting_room_chairs) tr) = int (count_at released s) \<and>
      int (count_op DecCount tr) = int (count_at decremented s))"

text \<open>Only the TA performs the TA's three semaphore operations.\<close>

definition ta_only :: "(actor \<times> sync_op) list \<Rightarrow> bool" where
  "ta_only tr =
     (\<forall>x \<in> set tr.
        snd x = SemWait student_present_for_ta \<or> snd x = SemPost ta_ready_for_student
        \<or> snd x = SemPost consultation_finished \<longrightarrow> fst x = TA)"

section \<open>Properties\<close>

subsection \<open>\<open>random_int\<close>\<close>

lemma smod_nonneg_pos:
  fixes r m :: int
  assumes "0 \<le> r" "0 < m"
  shows "0 \<le> r smod m \<and> r smod m < m"
proof -
  have "r smod m = r mod m"
    using assms by (simp add: signed_modulo_int_def sgn_if)
  then show ?thesis using assms by simp
qed

text \<open>
  C10. \<open>random_int\<close> is total and range-correct: for \<open>int\<close> arguments whose span
  \<open>max - min + 1\<close>, as line 33 computes it after the swap of lines 28--32, does not
  overflow, and a \<open>rand()\<close> value \<open>0 \<le> r \<le> INT_MAX\<close>, it returns a value (no fault)
  between the smaller and the larger argument, and swapping the arguments does not
  change the result.
\<close>

theorem random_int_range:
  assumes "in_int_range mn" "in_int_range mx" "0 \<le> r" "r \<le> INT_MAX"
    and "max mn mx - min mn mx + 1 \<le> INT_MAX"
  shows "(\<exists>v. random_int r mn mx = Inr v \<and> min mn mx \<le> v \<and> v \<le> max mn mx)
         \<and> random_int r mn mx = random_int r mx mn"
proof -
  define lo where "lo = min mn mx"
  define hi where "hi = max mn mx"
  have lohi: "lo \<le> hi" by (simp add: lo_def hi_def)
  have span: "hi - lo + 1 \<le> INT_MAX" using assms(5) by (simp add: lo_def hi_def)
  have rng: "in_int_range lo" "in_int_range hi"
    using assms(1,2) by (auto simp: lo_def hi_def min_def max_def)
  have m: "0 \<le> r smod (hi - lo + 1) \<and> r smod (hi - lo + 1) < hi - lo + 1"
    using smod_nonneg_pos [of r "hi - lo + 1"] assms(3) lohi by simp
  have r1: "in_int_range (hi - lo)" "in_int_range (hi - lo + 1)"
    using span lohi by (auto simp: in_int_range_def INT_MIN_def INT_MAX_def)
  have r2: "in_int_range (r smod (hi - lo + 1) + lo)"
    using m rng by (auto simp: in_int_range_def)
  have nz: "hi - lo + 1 \<noteq> 0" "hi - lo + 1 \<noteq> - 1" using lohi by auto
  have gen: "random_int r a b = Inr (r smod (hi - lo + 1) + lo)"
    if "min a b = lo" "max a b = hi" for a b
  proof -
    have "(if a > b then b else a) = lo" "(if a > b then a else b) = hi"
      using that by (auto simp: min_def max_def)
    then show ?thesis
      using r1 r2 nz by (simp add: random_int_def Let_def)
  qed
  have e1: "random_int r mn mx = Inr (r smod (hi - lo + 1) + lo)"
    by (rule gen) (simp_all add: lo_def hi_def)
  have e2: "random_int r mx mn = Inr (r smod (hi - lo + 1) + lo)"
    by (rule gen) (simp_all add: lo_def hi_def min.commute max.commute)
  show ?thesis
    using e1 e2 m by (simp add: lo_def [symmetric] hi_def [symmetric])
qed

theorem random_int_range_witness:
  "in_int_range 3 \<and> in_int_range 1 \<and> (0::int) \<le> 7 \<and> 7 \<le> INT_MAX
   \<and> max 3 1 - min 3 1 + 1 \<le> INT_MAX
   \<and> random_int 7 3 1 = Inr 2 \<and> random_int 7 1 3 = Inr 2"
proof -
  have h: "in_int_range 3" "in_int_range 1" "(0::int) \<le> 7" "7 \<le> INT_MAX"
    "max 3 1 - min 3 1 + 1 \<le> INT_MAX"
    by (simp_all add: in_int_range_def INT_MIN_def INT_MAX_def)
  have v: "random_int 7 3 1 = Inr 2"
    by (simp add: random_int_def Let_def in_int_range_def INT_MIN_def INT_MAX_def
        signed_modulo_int_def)
  from random_int_range [OF h] have "random_int 7 3 1 = random_int 7 1 3" by simp
  with v h show ?thesis by simp
qed

subsection \<open>Executions and steps\<close>

lemma count_update:
  "i < length xs \<Longrightarrow>
   int (length (filter P (xs[i := v]))) =
     int (length (filter P xs)) - (if P (xs ! i) then 1 else 0) + (if P v then 1 else 0)"
proof (induction xs arbitrary: i)
  case Nil
  then show ?case by simp
next
  case (Cons x xs)
  show ?case
  proof (cases i)
    case 0
    then show ?thesis by simp
  next
    case (Suc j)
    with Cons.prems have "j < length xs" by simp
    from Cons.IH [OF this] Suc show ?thesis by (auto split: if_splits)
  qed
qed

lemma run_append:
  "run C s (xs @ ys) =
     (case run C s xs of
        None \<Rightarrow> None
      | Some (tr1, s1) \<Rightarrow>
          (case run C s1 ys of
             None \<Rightarrow> None
           | Some (tr2, s2) \<Rightarrow> Some (tr1 @ tr2, s2)))"
  by (induction xs arbitrary: s) (auto split: option.splits)

lemma run_snoc:
  "run C s (xs @ [a]) = Some (tr, s') \<longleftrightarrow>
     (\<exists>tr1 s1 e. run C s xs = Some (tr1, s1) \<and> step C s1 a = Some (e, s') \<and> tr = tr1 @ [(a, e)])"
  by (auto simp: run_append split: option.splits)

lemma run_invariant:
  assumes "run C s0 sched = Some (tr, s)"
    and "P [] s0"
    and "\<And>tr s a e s'. P tr s \<Longrightarrow> step C s a = Some (e, s') \<Longrightarrow> P (tr @ [(a, e)]) s'"
  shows "P tr s"
  using assms(1)
proof (induction sched arbitrary: tr s rule: rev_induct)
  case Nil
  then show ?case using assms(2) by simp
next
  case (snoc a sched)
  then obtain tr1 s1 e where "run C s0 sched = Some (tr1, s1)" "step C s1 a = Some (e, s)"
    "tr = tr1 @ [(a, e)]"
    by (auto simp: run_snoc)
  then show ?case using snoc.IH assms(3) by blast
qed

lemma student_step_cases:
  assumes "student_thread_func C i s = Some (e, s')"
  obtains
    (Arrive) "student_at s ! i = S_Arrive" "e = Sleep" "s' = goto i S_Lock s"
  | (Lock) "student_at s ! i = S_Lock" "count_mutex s = None" "e = MutexLock"
      "s' = goto i S_Check (s\<lparr>count_mutex := Some i\<rparr>)"
  | (CheckT) "student_at s ! i = S_Check" "num_students_in_chairs s < C" "e = ReadCount"
      "s' = goto i S_Inc s"
  | (CheckF) "student_at s ! i = S_Check" "\<not> num_students_in_chairs s < C" "e = ReadCount"
      "s' = goto i S_BalkUnlock s"
  | (Inc) "student_at s ! i = S_Inc" "e = IncCount"
      "s' = goto i S_TakeChair (s\<lparr>num_students_in_chairs := num_students_in_chairs s + 1\<rparr>)"
  | (TakeChair) "student_at s ! i = S_TakeChair" "0 < waiting_room_chairs_sem s"
      "e = SemWait waiting_room_chairs"
      "s' = goto i S_Unlock (s\<lparr>waiting_room_chairs_sem := waiting_room_chairs_sem s - 1\<rparr>)"
  | (Unlock) "student_at s ! i = S_Unlock" "e = MutexUnlock"
      "s' = goto i S_Announce (s\<lparr>count_mutex := None\<rparr>)"
  | (Announce) "student_at s ! i = S_Announce" "e = SemPost student_present_for_ta"
      "s' = goto i S_AwaitTA
              (s\<lparr>student_present_for_ta_sem := student_present_for_ta_sem s + 1\<rparr>)"
  | (AwaitTA) "student_at s ! i = S_AwaitTA" "0 < ta_ready_for_student_sem s"
      "e = SemWait ta_ready_for_student"
      "s' = goto i S_LeaveChair (s\<lparr>ta_ready_for_student_sem := ta_ready_for_student_sem s - 1\<rparr>)"
  | (LeaveChair) "student_at s ! i = S_LeaveChair" "e = SemPost waiting_room_chairs"
      "s' = goto i S_Lock2 (s\<lparr>waiting_room_chairs_sem := waiting_room_chairs_sem s + 1\<rparr>)"
  | (Lock2) "student_at s ! i = S_Lock2" "count_mutex s = None" "e = MutexLock"
      "s' = goto i S_Dec (s\<lparr>count_mutex := Some i\<rparr>)"
  | (Dec) "student_at s ! i = S_Dec" "e = DecCount"
      "s' = goto i S_Unlock2 (s\<lparr>num_students_in_chairs := num_students_in_chairs s - 1\<rparr>)"
  | (Unlock2) "student_at s ! i = S_Unlock2" "e = MutexUnlock"
      "s' = goto i S_Consult (s\<lparr>count_mutex := None\<rparr>)"
  | (Consult) "student_at s ! i = S_Consult" "0 < consultation_finished_sem s"
      "e = SemWait consultation_finished"
      "s' = goto i S_Served (s\<lparr>consultation_finished_sem := consultation_finished_sem s - 1\<rparr>)"
  | (BalkUnlock) "student_at s ! i = S_BalkUnlock" "e = MutexUnlock"
      "s' = goto i S_Balked (s\<lparr>count_mutex := None\<rparr>)"
  using assms
  by (cases "student_at s ! i")
    (auto simp: student_thread_func_def sem_wait_def sem_post_def pthread_mutex_lock_def
      pthread_mutex_unlock_def split: option.splits if_splits)

lemma ta_step_cases:
  assumes "ta_thread_func s = Some (e, s')"
  obtains
    (Wait) "ta_at s = T_Wait" "0 < student_present_for_ta_sem s"
      "e = SemWait student_present_for_ta"
      "s' = s\<lparr>student_present_for_ta_sem := student_present_for_ta_sem s - 1, ta_at := T_Call\<rparr>"
  | (Call) "ta_at s = T_Call" "e = SemPost ta_ready_for_student"
      "s' = s\<lparr>ta_ready_for_student_sem := ta_ready_for_student_sem s + 1, ta_at := T_Help\<rparr>"
  | (Help) "ta_at s = T_Help" "e = Sleep" "s' = s\<lparr>ta_at := T_Finish\<rparr>"
  | (Finish) "ta_at s = T_Finish" "e = SemPost consultation_finished"
      "s' = s\<lparr>consultation_finished_sem := consultation_finished_sem s + 1, ta_at := T_Wait\<rparr>"
  using assms
  by (cases "ta_at s")
    (auto simp: ta_thread_func_def sem_wait_def sem_post_def split: option.splits if_splits)

lemma holds_lock_simps [simp]:
  "holds_lock S_Arrive = False" "holds_lock S_Lock = False" "holds_lock S_Check = True"
  "holds_lock S_Inc = True" "holds_lock S_TakeChair = True" "holds_lock S_Unlock = True"
  "holds_lock S_Announce = False" "holds_lock S_AwaitTA = False"
  "holds_lock S_LeaveChair = False" "holds_lock S_Lock2 = False" "holds_lock S_Dec = True"
  "holds_lock S_Unlock2 = True" "holds_lock S_Consult = False" "holds_lock S_Served = False"
  "holds_lock S_BalkUnlock = True" "holds_lock S_Balked = False"
  by (simp_all add: holds_lock_def)

lemma count_at_goto:
  "i < length (student_at s) \<Longrightarrow>
   int (count_at P (goto i l s)) =
     int (count_at P s) - (if P (student_at s ! i) then 1 else 0) + (if P l then 1 else 0)"
  by (simp add: count_at_def goto_def count_update)

lemma count_at_upd [simp]:
  "count_at P (s\<lparr>waiting_room_chairs_sem := a\<rparr>) = count_at P s"
  "count_at P (s\<lparr>student_present_for_ta_sem := a\<rparr>) = count_at P s"
  "count_at P (s\<lparr>ta_ready_for_student_sem := a\<rparr>) = count_at P s"
  "count_at P (s\<lparr>consultation_finished_sem := a\<rparr>) = count_at P s"
  "count_at P (s\<lparr>count_mutex := m\<rparr>) = count_at P s"
  "count_at P (s\<lparr>num_students_in_chairs := k\<rparr>) = count_at P s"
  "count_at P (s\<lparr>ta_at := t\<rparr>) = count_at P s"
  by (simp_all add: count_at_def)

lemma goto_simps [simp]:
  "waiting_room_chairs_sem (goto i l s) = waiting_room_chairs_sem s"
  "student_present_for_ta_sem (goto i l s) = student_present_for_ta_sem s"
  "ta_ready_for_student_sem (goto i l s) = ta_ready_for_student_sem s"
  "consultation_finished_sem (goto i l s) = consultation_finished_sem s"
  "count_mutex (goto i l s) = count_mutex s"
  "num_students_in_chairs (goto i l s) = num_students_in_chairs s"
  "ta_at (goto i l s) = ta_at s"
  "student_at (goto i l s) = (student_at s)[i := l]"
  by (simp_all add: goto_def)

lemma step_student:
  assumes "step C s (Student i) = Some (e, s')"
  shows "i < length (student_at s)" "student_thread_func C i s = Some (e, s')"
  using assms by (auto simp: step_def split: if_splits)

lemma step_length:
  assumes "step C s a = Some (e, s')"
  shows "length (student_at s') = length (student_at s)"
proof (cases a)
  case TA
  with assms have "ta_thread_func s = Some (e, s')" by (simp add: step_def)
  then show ?thesis by (cases rule: ta_step_cases) simp_all
next
  case (Student i)
  with assms have "student_thread_func C i s = Some (e, s')" by (simp add: step_student)
  then show ?thesis by (cases rule: student_step_cases) simp_all
qed

lemma step_occupied_inv:
  assumes "step C s a = Some (e, s')" "occupied_inv s"
  shows "occupied_inv s'"
proof (cases a)
  case TA
  with assms(1) have "ta_thread_func s = Some (e, s')" by (simp add: step_def)
  then show ?thesis using assms(2) by (cases rule: ta_step_cases) (simp_all add: occupied_inv_def)
next
  case (Student i)
  with assms(1) have i: "i < length (student_at s)"
    and st: "student_thread_func C i s = Some (e, s')"
    by (simp_all add: step_student)
  from st show ?thesis using assms(2) i
    by (cases rule: student_step_cases)
      (simp_all add: occupied_inv_def count_at_goto committed_def)
qed

lemma step_chairs_inv:
  assumes "step C s a = Some (e, s')" "chairs_inv C s"
  shows "chairs_inv C s'"
proof (cases a)
  case TA
  with assms(1) have "ta_thread_func s = Some (e, s')" by (simp add: step_def)
  then show ?thesis using assms(2) by (cases rule: ta_step_cases) (simp_all add: chairs_inv_def)
next
  case (Student i)
  with assms(1) have i: "i < length (student_at s)"
    and st: "student_thread_func C i s = Some (e, s')"
    by (simp_all add: step_student)
  from st show ?thesis using assms(2) i
    by (cases rule: student_step_cases)
      (simp_all add: chairs_inv_def count_at_goto holds_chair_def)
qed

lemma mutex_inv_upd [simp]:
  "mutex_inv (s\<lparr>waiting_room_chairs_sem := a\<rparr>) = mutex_inv s"
  "mutex_inv (s\<lparr>student_present_for_ta_sem := a\<rparr>) = mutex_inv s"
  "mutex_inv (s\<lparr>ta_ready_for_student_sem := a\<rparr>) = mutex_inv s"
  "mutex_inv (s\<lparr>consultation_finished_sem := a\<rparr>) = mutex_inv s"
  "mutex_inv (s\<lparr>num_students_in_chairs := k\<rparr>) = mutex_inv s"
  "mutex_inv (s\<lparr>ta_at := t\<rparr>) = mutex_inv s"
  by (simp_all add: mutex_inv_def)

lemma goto_upd [simp]:
  "goto i l (s\<lparr>waiting_room_chairs_sem := a\<rparr>) = (goto i l s)\<lparr>waiting_room_chairs_sem := a\<rparr>"
  "goto i l (s\<lparr>student_present_for_ta_sem := a\<rparr>) = (goto i l s)\<lparr>student_present_for_ta_sem := a\<rparr>"
  "goto i l (s\<lparr>ta_ready_for_student_sem := a\<rparr>) = (goto i l s)\<lparr>ta_ready_for_student_sem := a\<rparr>"
  "goto i l (s\<lparr>consultation_finished_sem := a\<rparr>) = (goto i l s)\<lparr>consultation_finished_sem := a\<rparr>"
  "goto i l (s\<lparr>count_mutex := m\<rparr>) = (goto i l s)\<lparr>count_mutex := m\<rparr>"
  "goto i l (s\<lparr>num_students_in_chairs := k\<rparr>) = (goto i l s)\<lparr>num_students_in_chairs := k\<rparr>"
  "goto i l (s\<lparr>ta_at := t\<rparr>) = (goto i l s)\<lparr>ta_at := t\<rparr>"
  by (simp_all add: goto_def)

lemma mutex_invD1:
  "mutex_inv s \<Longrightarrow> i < length (student_at s) \<Longrightarrow> holds_lock (student_at s ! i) \<Longrightarrow>
   count_mutex s = Some i"
  unfolding mutex_inv_def by blast

lemma mutex_invD2:
  "mutex_inv s \<Longrightarrow> count_mutex s = Some i \<Longrightarrow>
   i < length (student_at s) \<and> holds_lock (student_at s ! i)"
  unfolding mutex_inv_def by blast

lemma mutex_invI:
  assumes "\<And>i. i < length (student_at s) \<Longrightarrow> holds_lock (student_at s ! i) \<Longrightarrow>
             count_mutex s = Some i"
    and "\<And>i. count_mutex s = Some i \<Longrightarrow> i < length (student_at s)"
    and "\<And>i. count_mutex s = Some i \<Longrightarrow> holds_lock (student_at s ! i)"
  shows "mutex_inv s"
  unfolding mutex_inv_def using assms by blast

lemma mutex_inv_unique:
  assumes "mutex_inv s" "i < length (student_at s)" "j < length (student_at s)"
    and "holds_lock (student_at s ! i)" "holds_lock (student_at s ! j)"
  shows "i = j"
  using mutex_invD1 [OF assms(1,2,4)] mutex_invD1 [OF assms(1,3,5)] by simp

lemma mutex_inv_goto_in:
  assumes "mutex_inv s" "i < length (student_at s)"
    and "holds_lock l" "holds_lock (student_at s ! i)"
  shows "mutex_inv (goto i l s)"
proof (rule mutex_invI)
  fix j assume j: "j < length (student_at (goto i l s))"
    and h: "holds_lock (student_at (goto i l s) ! j)"
  have "holds_lock (student_at s ! j)"
  proof (cases "j = i")
    case True
    then show ?thesis using assms(4) by simp
  next
    case False
    then show ?thesis using h by simp
  qed
  moreover have "j < length (student_at s)" using j by simp
  ultimately have "count_mutex s = Some j" using assms(1) by (simp add: mutex_invD1)
  then show "count_mutex (goto i l s) = Some j" by simp
next
  fix j assume "count_mutex (goto i l s) = Some j"
  then have "count_mutex s = Some j" by simp
  from mutex_invD2 [OF assms(1) this]
  show "j < length (student_at (goto i l s))" by simp
next
  fix j assume "count_mutex (goto i l s) = Some j"
  then have "count_mutex s = Some j" by simp
  from mutex_invD2 [OF assms(1) this]
  have j: "j < length (student_at s)" "holds_lock (student_at s ! j)" by simp_all
  show "holds_lock (student_at (goto i l s) ! j)"
  proof (cases "j = i")
    case True
    then show ?thesis using assms(2,3) by simp
  next
    case False
    then show ?thesis using j by simp
  qed
qed

lemma mutex_inv_goto_out:
  assumes "mutex_inv s" "i < length (student_at s)"
    and "\<not> holds_lock l" "\<not> holds_lock (student_at s ! i)"
  shows "mutex_inv (goto i l s)"
proof (rule mutex_invI)
  fix j assume j: "j < length (student_at (goto i l s))"
    and h: "holds_lock (student_at (goto i l s) ! j)"
  have "j \<noteq> i" using h assms(2,3) by auto
  then have "holds_lock (student_at s ! j)" using h by simp
  moreover have "j < length (student_at s)" using j by simp
  ultimately have "count_mutex s = Some j" using assms(1) by (simp add: mutex_invD1)
  then show "count_mutex (goto i l s) = Some j" by simp
next
  fix j assume "count_mutex (goto i l s) = Some j"
  then have "count_mutex s = Some j" by simp
  from mutex_invD2 [OF assms(1) this]
  show "j < length (student_at (goto i l s))" by simp
next
  fix j assume "count_mutex (goto i l s) = Some j"
  then have "count_mutex s = Some j" by simp
  from mutex_invD2 [OF assms(1) this]
  have j: "j < length (student_at s)" "holds_lock (student_at s ! j)" by simp_all
  have "j \<noteq> i" using j assms(4) by auto
  then show "holds_lock (student_at (goto i l s) ! j)" using j by simp
qed

lemma mutex_inv_lock:
  assumes "mutex_inv s" "i < length (student_at s)" "count_mutex s = None" "holds_lock l"
  shows "mutex_inv ((goto i l s)\<lparr>count_mutex := Some i\<rparr>)"
proof (rule mutex_invI)
  fix j
  assume j: "j < length (student_at ((goto i l s)\<lparr>count_mutex := Some i\<rparr>))"
    and h: "holds_lock (student_at ((goto i l s)\<lparr>count_mutex := Some i\<rparr>) ! j)"
  have "j = i"
  proof (rule ccontr)
    assume "j \<noteq> i"
    with j h have "j < length (student_at s)" "holds_lock (student_at s ! j)" by simp_all
    from mutex_invD1 [OF assms(1) this] assms(3) show False by simp
  qed
  then show "count_mutex ((goto i l s)\<lparr>count_mutex := Some i\<rparr>) = Some j" by simp
next
  fix j assume "count_mutex ((goto i l s)\<lparr>count_mutex := Some i\<rparr>) = Some j"
  then have "j = i" by simp
  then show "j < length (student_at ((goto i l s)\<lparr>count_mutex := Some i\<rparr>))"
    using assms(2) by simp
next
  fix j assume "count_mutex ((goto i l s)\<lparr>count_mutex := Some i\<rparr>) = Some j"
  then have "j = i" by simp
  then show "holds_lock (student_at ((goto i l s)\<lparr>count_mutex := Some i\<rparr>) ! j)"
    using assms(2,4) by simp
qed

lemma mutex_inv_unlock:
  assumes "mutex_inv s" "i < length (student_at s)" "holds_lock (student_at s ! i)"
    and "\<not> holds_lock l"
  shows "mutex_inv ((goto i l s)\<lparr>count_mutex := None\<rparr>)"
proof (rule mutex_invI)
  fix j
  assume j: "j < length (student_at ((goto i l s)\<lparr>count_mutex := None\<rparr>))"
    and h: "holds_lock (student_at ((goto i l s)\<lparr>count_mutex := None\<rparr>) ! j)"
  have "j \<noteq> i" using h assms(2,4) by auto
  with j h have "j < length (student_at s)" "holds_lock (student_at s ! j)" by simp_all
  with assms(1,2,3) have "j = i" using mutex_inv_unique [of s j i] by simp
  with \<open>j \<noteq> i\<close> show "count_mutex ((goto i l s)\<lparr>count_mutex := None\<rparr>) = Some j" by simp
next
  fix j assume "count_mutex ((goto i l s)\<lparr>count_mutex := None\<rparr>) = Some j"
  then show "j < length (student_at ((goto i l s)\<lparr>count_mutex := None\<rparr>))" by simp
next
  fix j assume "count_mutex ((goto i l s)\<lparr>count_mutex := None\<rparr>) = Some j"
  then show "holds_lock (student_at ((goto i l s)\<lparr>count_mutex := None\<rparr>) ! j)" by simp
qed

lemma step_mutex_inv:
  assumes "step C s a = Some (e, s')" "mutex_inv s"
  shows "mutex_inv s'"
proof (cases a)
  case TA
  with assms(1) have "ta_thread_func s = Some (e, s')" by (simp add: step_def)
  then show ?thesis using assms(2) by (cases rule: ta_step_cases) simp_all
next
  case (Student i)
  with assms(1) have i: "i < length (student_at s)"
    and st: "student_thread_func C i s = Some (e, s')"
    by (simp_all add: step_student)
  from st show ?thesis using assms(2) i
    by (cases rule: student_step_cases)
      (simp_all add: mutex_inv_goto_in mutex_inv_goto_out mutex_inv_lock mutex_inv_unlock)
qed

lemma bound_inv_upd [simp]:
  "bound_inv C (s\<lparr>waiting_room_chairs_sem := a\<rparr>) = bound_inv C s"
  "bound_inv C (s\<lparr>student_present_for_ta_sem := a\<rparr>) = bound_inv C s"
  "bound_inv C (s\<lparr>ta_ready_for_student_sem := a\<rparr>) = bound_inv C s"
  "bound_inv C (s\<lparr>consultation_finished_sem := a\<rparr>) = bound_inv C s"
  "bound_inv C (s\<lparr>count_mutex := m\<rparr>) = bound_inv C s"
  "bound_inv C (s\<lparr>ta_at := t\<rparr>) = bound_inv C s"
  by (simp_all add: bound_inv_def)

lemma bound_inv_goto:
  assumes "bound_inv C s" "i < length (student_at s)"
    and "l \<noteq> S_Inc \<or> num_students_in_chairs s < C"
  shows "bound_inv C (goto i l s)"
  unfolding bound_inv_def
proof (intro conjI allI impI)
  show "num_students_in_chairs (goto i l s) \<le> C" using assms(1) by (simp add: bound_inv_def)
next
  fix j assume "j < length (student_at (goto i l s))" "student_at (goto i l s) ! j = S_Inc"
  then show "num_students_in_chairs (goto i l s) < C"
    using assms by (cases "j = i") (simp_all add: bound_inv_def)
qed

lemma bound_inv_inc:
  assumes "bound_inv C s" "mutex_inv s" "i < length (student_at s)" "student_at s ! i = S_Inc"
  shows "bound_inv C ((goto i S_TakeChair s)\<lparr>num_students_in_chairs := num_students_in_chairs s + 1\<rparr>)"
  unfolding bound_inv_def
proof (intro conjI allI impI)
  have "num_students_in_chairs s < C" using assms(1,3,4) by (simp add: bound_inv_def)
  then show "num_students_in_chairs
       ((goto i S_TakeChair s)\<lparr>num_students_in_chairs := num_students_in_chairs s + 1\<rparr>) \<le> C"
    by simp
next
  fix j
  assume j: "j < length (student_at
       ((goto i S_TakeChair s)\<lparr>num_students_in_chairs := num_students_in_chairs s + 1\<rparr>))"
    and a: "student_at
       ((goto i S_TakeChair s)\<lparr>num_students_in_chairs := num_students_in_chairs s + 1\<rparr>) ! j = S_Inc"
  have "j \<noteq> i" using a assms(3) by auto
  with j a have "j < length (student_at s)" "student_at s ! j = S_Inc" by simp_all
  with assms(2,3,4) have "j = i" using mutex_inv_unique [of s j i] by simp
  with \<open>j \<noteq> i\<close> show "num_students_in_chairs
       ((goto i S_TakeChair s)\<lparr>num_students_in_chairs := num_students_in_chairs s + 1\<rparr>) < C"
    by simp
qed

lemma bound_inv_dec:
  assumes "bound_inv C s" "i < length (student_at s)"
  shows "bound_inv C ((goto i S_Unlock2 s)\<lparr>num_students_in_chairs := num_students_in_chairs s - 1\<rparr>)"
  unfolding bound_inv_def
proof (intro conjI allI impI)
  show "num_students_in_chairs
       ((goto i S_Unlock2 s)\<lparr>num_students_in_chairs := num_students_in_chairs s - 1\<rparr>) \<le> C"
    using assms(1) by (simp add: bound_inv_def)
next
  fix j
  assume j: "j < length (student_at
       ((goto i S_Unlock2 s)\<lparr>num_students_in_chairs := num_students_in_chairs s - 1\<rparr>))"
    and a: "student_at
       ((goto i S_Unlock2 s)\<lparr>num_students_in_chairs := num_students_in_chairs s - 1\<rparr>) ! j = S_Inc"
  have "j \<noteq> i" using a assms(2) by auto
  with j a have "j < length (student_at s)" "student_at s ! j = S_Inc" by simp_all
  with assms(1) have "num_students_in_chairs s < C" by (simp add: bound_inv_def)
  then show "num_students_in_chairs
       ((goto i S_Unlock2 s)\<lparr>num_students_in_chairs := num_students_in_chairs s - 1\<rparr>) < C"
    by simp
qed

lemma step_bound_inv:
  assumes "step C s a = Some (e, s')" "bound_inv C s" "mutex_inv s"
  shows "bound_inv C s'"
proof (cases a)
  case TA
  with assms(1) have "ta_thread_func s = Some (e, s')" by (simp add: step_def)
  then show ?thesis using assms(2) by (cases rule: ta_step_cases) simp_all
next
  case (Student i)
  with assms(1) have i: "i < length (student_at s)"
    and st: "student_thread_func C i s = Some (e, s')"
    by (simp_all add: step_student)
  from st show ?thesis using assms(2,3) i
    by (cases rule: student_step_cases)
      (simp_all add: bound_inv_goto bound_inv_inc bound_inv_dec)
qed

lemma count_op_snoc [simp]:
  "count_op e (tr @ [(a, e')]) = count_op e tr + (if e' = e then 1 else 0)"
  by (simp add: count_op_def)

lemma count_op_Nil [simp]: "count_op e [] = 0"
  by (simp add: count_op_def)

lemma step_ta_lockstep:
  assumes "step C s a = Some (e, s')" "ta_lockstep tr s"
  shows "ta_lockstep (tr @ [(a, e)]) s'"
proof (cases a)
  case TA
  with assms(1) have "ta_thread_func s = Some (e, s')" by (simp add: step_def)
  then show ?thesis using assms(2) by (cases rule: ta_step_cases) (simp_all add: ta_lockstep_def)
next
  case (Student i)
  with assms(1) have i: "i < length (student_at s)"
    and st: "student_thread_func C i s = Some (e, s')"
    by (simp_all add: step_student)
  from st show ?thesis using assms(2) i
    by (cases rule: student_step_cases) (simp_all add: ta_lockstep_def)
qed

lemma step_sem_account:
  assumes "step C s a = Some (e, s')" "sem_account tr s"
  shows "sem_account (tr @ [(a, e)]) s'"
proof (cases a)
  case TA
  with assms(1) have "ta_thread_func s = Some (e, s')" by (simp add: step_def)
  then show ?thesis using assms(2) by (cases rule: ta_step_cases) (simp_all add: sem_account_def)
next
  case (Student i)
  with assms(1) have i: "i < length (student_at s)"
    and st: "student_thread_func C i s = Some (e, s')"
    by (simp_all add: step_student)
  from st show ?thesis using assms(2) i
    by (cases rule: student_step_cases) (simp_all add: sem_account_def)
qed

lemma loc_pred_simps [simp]:
  "announced S_Arrive = False" "announced S_Lock = False" "announced S_Check = False"
  "announced S_Inc = False" "announced S_TakeChair = False" "announced S_Unlock = False"
  "announced S_Announce = False" "announced S_AwaitTA = True" "announced S_LeaveChair = True"
  "announced S_Lock2 = True" "announced S_Dec = True" "announced S_Unlock2 = True"
  "announced S_Consult = True" "announced S_Served = True" "announced S_BalkUnlock = False"
  "announced S_Balked = False"
  "summoned S_Arrive = False" "summoned S_Lock = False" "summoned S_Check = False"
  "summoned S_Inc = False" "summoned S_TakeChair = False" "summoned S_Unlock = False"
  "summoned S_Announce = False" "summoned S_AwaitTA = False" "summoned S_LeaveChair = True"
  "summoned S_Lock2 = True" "summoned S_Dec = True" "summoned S_Unlock2 = True"
  "summoned S_Consult = True" "summoned S_Served = True" "summoned S_BalkUnlock = False"
  "summoned S_Balked = False"
  "served S_Arrive = False" "served S_Lock = False" "served S_Check = False"
  "served S_Inc = False" "served S_TakeChair = False" "served S_Unlock = False"
  "served S_Announce = False" "served S_AwaitTA = False" "served S_LeaveChair = False"
  "served S_Lock2 = False" "served S_Dec = False" "served S_Unlock2 = False"
  "served S_Consult = False" "served S_Served = True" "served S_BalkUnlock = False"
  "served S_Balked = False"
  by (simp_all add: announced_def summoned_def served_def)

lemma step_student_account:
  assumes "step C s a = Some (e, s')" "student_account tr s"
  shows "student_account (tr @ [(a, e)]) s'"
proof (cases a)
  case TA
  with assms(1) have "ta_thread_func s = Some (e, s')" by (simp add: step_def)
  then show ?thesis using assms(2)
    by (cases rule: ta_step_cases) (simp_all add: student_account_def)
next
  case (Student i)
  with assms(1) have i: "i < length (student_at s)"
    and st: "student_thread_func C i s = Some (e, s')"
    by (simp_all add: step_student)
  from st show ?thesis using assms(2) i
    by (cases rule: student_step_cases) (simp_all add: student_account_def count_at_goto)
qed

lemma ops_of_snoc [simp]:
  "ops_of a (tr @ [(b, e)]) = ops_of a tr @ (if b = a then [e] else [])"
  by (simp add: ops_of_def)

lemma ops_of_Nil [simp]: "ops_of a [] = []"
  by (simp add: ops_of_def)

lemma student_step_at:
  assumes "student_thread_func C i s = Some (e, s')" "i < length (student_at s)"
  shows "student_at s' = (student_at s)[i := student_at s' ! i]
         \<and> history (student_at s' ! i) = history (student_at s ! i) @ [e]"
  using assms
  by (cases rule: student_step_cases) (simp_all add: served_path_def balk_path_def)

lemma ta_step_at:
  assumes "ta_thread_func s = Some (e, s')"
  shows "student_at s' = student_at s"
  using assms by (cases rule: ta_step_cases) simp_all

lemma step_order_inv:
  assumes "step C s a = Some (e, s')" "order_inv tr s"
  shows "order_inv (tr @ [(a, e)]) s'"
proof (cases a)
  case TA
  with assms(1) have "ta_thread_func s = Some (e, s')" by (simp add: step_def)
  from ta_step_at [OF this] show ?thesis using assms(2) TA by (simp add: order_inv_def)
next
  case (Student i)
  with assms(1) have i: "i < length (student_at s)"
    and st: "student_thread_func C i s = Some (e, s')"
    by (simp_all add: step_student)
  define l where "l = student_at s' ! i"
  from student_step_at [OF st i] have
    l: "student_at s' = (student_at s)[i := l]"
    and h: "history l = history (student_at s ! i) @ [e]"
    by (simp_all add: l_def)
  show ?thesis
    unfolding order_inv_def
  proof (intro allI impI)
    fix j assume "j < length (student_at s')"
    then have j: "j < length (student_at s)" using l by simp
    with assms(2) have o: "ops_of (Student j) tr = history (student_at s ! j)"
      by (simp add: order_inv_def)
    show "ops_of (Student j) (tr @ [(a, e)]) = history (student_at s' ! j)"
    proof (cases "j = i")
      case True
      then show ?thesis using o h l i Student by simp
    next
      case False
      then show ?thesis using o l j Student by simp
    qed
  qed
qed

lemma step_frame:
  assumes "step C s a = Some (e, s')"
    and "e = Sleep \<or> e = MutexLock \<or> e = ReadCount \<or> e = MutexUnlock"
  shows "waiting_room_chairs_sem s' = waiting_room_chairs_sem s \<and>
         student_present_for_ta_sem s' = student_present_for_ta_sem s \<and>
         ta_ready_for_student_sem s' = ta_ready_for_student_sem s \<and>
         consultation_finished_sem s' = consultation_finished_sem s \<and>
         num_students_in_chairs s' = num_students_in_chairs s"
proof (cases a)
  case TA
  with assms(1) have "ta_thread_func s = Some (e, s')" by (simp add: step_def)
  then show ?thesis using assms(2) by (cases rule: ta_step_cases) simp_all
next
  case (Student i)
  with assms(1) have "student_thread_func C i s = Some (e, s')" by (simp add: step_student)
  then show ?thesis using assms(2) by (cases rule: student_step_cases) simp_all
qed

lemma step_num:
  assumes "step C s a = Some (e, s')"
  shows "num_students_in_chairs s' =
         num_students_in_chairs s + (if e = IncCount then 1 else 0) - (if e = DecCount then 1 else 0)"
proof (cases a)
  case TA
  with assms(1) have "ta_thread_func s = Some (e, s')" by (simp add: step_def)
  then show ?thesis by (cases rule: ta_step_cases) simp_all
next
  case (Student i)
  with assms(1) have "student_thread_func C i s = Some (e, s')" by (simp add: step_student)
  then show ?thesis by (cases rule: student_step_cases) simp_all
qed

lemma run_num:
  assumes "run C s0 sched = Some (tr, s)"
  shows "num_students_in_chairs s =
         num_students_in_chairs s0 + int (count_op IncCount tr) - int (count_op DecCount tr)"
  using assms
proof (rule run_invariant)
  show "num_students_in_chairs s0 =
        num_students_in_chairs s0 + int (count_op IncCount []) - int (count_op DecCount [])"
    by simp
next
  fix tr s a e s'
  assume "num_students_in_chairs s =
         num_students_in_chairs s0 + int (count_op IncCount tr) - int (count_op DecCount tr)"
    and "step C s a = Some (e, s')"
  then show "num_students_in_chairs s' =
         num_students_in_chairs s0 + int (count_op IncCount (tr @ [(a, e)]))
           - int (count_op DecCount (tr @ [(a, e)]))"
    using step_num [of C s a e s'] by simp
qed

lemma filter_subset_less:
  assumes "\<And>x. P x \<Longrightarrow> Q x" "i < length xs" "Q (xs ! i)" "\<not> P (xs ! i)"
  shows "length (filter P xs) < length (filter Q xs)"
proof -
  have "filter P xs = filter P (filter Q xs)"
    using assms(1) by (auto intro: filter_cong)
  moreover have "xs ! i \<in> set (filter Q xs)" using assms(2,3) by simp
  ultimately show ?thesis
    using assms(4) length_filter_less [of "xs ! i" "filter Q xs" P] by simp
qed

lemma chair_available:
  assumes "occupied_inv s" "chairs_inv C s" "bound_inv C s"
    and "i < length (student_at s)" "student_at s ! i = S_TakeChair"
  shows "0 < waiting_room_chairs_sem s"
proof -
  have "count_at holds_chair s < count_at committed s"
    unfolding count_at_def
    by (rule filter_subset_less [of _ _ i])
      (use assms(4,5) in \<open>auto simp: holds_chair_def committed_def\<close>)
  moreover have "int (count_at committed s) \<le> C"
    using assms(1,3) by (simp add: occupied_inv_def bound_inv_def)
  ultimately have "int (count_at holds_chair s) < C" by linarith
  with assms(2) show ?thesis by (simp add: chairs_inv_def)
qed

subsection \<open>Invariants of every execution\<close>

lemma init_simps [simp]:
  "waiting_room_chairs_sem (init C n) = nat C"
  "student_present_for_ta_sem (init C n) = 0"
  "ta_ready_for_student_sem (init C n) = 0"
  "consultation_finished_sem (init C n) = 0"
  "count_mutex (init C n) = None"
  "num_students_in_chairs (init C n) = 0"
  "ta_at (init C n) = T_Wait"
  "student_at (init C n) = replicate n S_Arrive"
  by (simp_all add: init_def)

lemma filter_replicate_False:
  "\<not> P x \<Longrightarrow> filter P (replicate n x) = []"
  by (induction n) simp_all

lemma committed_simps [simp]:
  "committed S_Arrive = False" "committed S_Lock = False" "committed S_Check = False"
  "committed S_Inc = False" "committed S_TakeChair = True" "committed S_Unlock = True"
  "committed S_Announce = True" "committed S_AwaitTA = True" "committed S_LeaveChair = True"
  "committed S_Lock2 = True" "committed S_Dec = True" "committed S_Unlock2 = False"
  "committed S_Consult = False" "committed S_Served = False" "committed S_BalkUnlock = False"
  "committed S_Balked = False"
  "holds_chair S_Arrive = False" "holds_chair S_Lock = False" "holds_chair S_Check = False"
  "holds_chair S_Inc = False" "holds_chair S_TakeChair = False" "holds_chair S_Unlock = True"
  "holds_chair S_Announce = True" "holds_chair S_AwaitTA = True"
  "holds_chair S_LeaveChair = True" "holds_chair S_Lock2 = False" "holds_chair S_Dec = False"
  "holds_chair S_Unlock2 = False" "holds_chair S_Consult = False"
  "holds_chair S_Served = False" "holds_chair S_BalkUnlock = False"
  "holds_chair S_Balked = False"
  by (simp_all add: committed_def holds_chair_def)

lemma init_state_inv:
  assumes "0 \<le> C"
  shows "mutex_inv (init C n)" "occupied_inv (init C n)" "chairs_inv C (init C n)"
    "bound_inv C (init C n)"
  using assms
  by (simp_all add: mutex_inv_def occupied_inv_def chairs_inv_def bound_inv_def count_at_def
      filter_replicate_False)

lemma init_trace_inv:
  "ta_lockstep [] (init C n)" "sem_account [] (init C n)" "student_account [] (init C n)"
  "order_inv [] (init C n)"
  by (simp_all add: ta_lockstep_def sem_account_def student_account_def order_inv_def
      count_at_def filter_replicate_False)

lemma run_state_inv:
  assumes "0 \<le> C" "run C (init C n) sched = Some (tr, s)"
  shows "length (student_at s) = n \<and> mutex_inv s \<and> occupied_inv s \<and> chairs_inv C s
         \<and> bound_inv C s"
  using assms(2)
proof (rule run_invariant)
  show "length (student_at (init C n)) = n \<and> mutex_inv (init C n) \<and> occupied_inv (init C n)
        \<and> chairs_inv C (init C n) \<and> bound_inv C (init C n)"
    using init_state_inv [OF assms(1)] by simp
next
  fix tr s a e s'
  assume inv: "length (student_at s) = n \<and> mutex_inv s \<and> occupied_inv s \<and> chairs_inv C s
         \<and> bound_inv C s"
    and st: "step C s a = Some (e, s')"
  show "length (student_at s') = n \<and> mutex_inv s' \<and> occupied_inv s' \<and> chairs_inv C s'
         \<and> bound_inv C s'"
    using inv step_length [OF st] step_mutex_inv [OF st] step_occupied_inv [OF st]
      step_chairs_inv [OF st] step_bound_inv [OF st]
    by simp
qed

lemma run_trace_inv:
  assumes "run C (init C n) sched = Some (tr, s)"
  shows "ta_lockstep tr s \<and> sem_account tr s \<and> student_account tr s \<and> order_inv tr s"
  using assms
proof (rule run_invariant)
  show "ta_lockstep [] (init C n) \<and> sem_account [] (init C n) \<and> student_account [] (init C n)
        \<and> order_inv [] (init C n)"
    using init_trace_inv by simp
next
  fix tr s a e s'
  assume inv: "ta_lockstep tr s \<and> sem_account tr s \<and> student_account tr s \<and> order_inv tr s"
    and st: "step C s a = Some (e, s')"
  show "ta_lockstep (tr @ [(a, e)]) s' \<and> sem_account (tr @ [(a, e)]) s'
        \<and> student_account (tr @ [(a, e)]) s' \<and> order_inv (tr @ [(a, e)]) s'"
    using inv step_ta_lockstep [OF st] step_sem_account [OF st] step_student_account [OF st]
      step_order_inv [OF st]
    by simp
qed

lemma run_length:
  assumes "run C s0 sched = Some (tr, s)"
  shows "length (student_at s) = length (student_at s0)"
  using assms
proof (rule run_invariant)
  show "length (student_at s0) = length (student_at s0)" by simp
next
  fix tr s a e s'
  assume "length (student_at s) = length (student_at s0)" "step C s a = Some (e, s')"
  then show "length (student_at s') = length (student_at s0)"
    using step_length [of C s a e s'] by simp
qed

lemma ops_of_append:
  "ops_of a (xs @ ys) = ops_of a xs @ ops_of a ys"
  by (simp add: ops_of_def)

lemma ops_of_Cons:
  "ops_of a ((b, e) # tr) = (if b = a then [e] else []) @ ops_of a tr"
  by (simp add: ops_of_def)

lemma run_trace_length:
  "run C s0 sched = Some (tr, s) \<Longrightarrow> length tr = length sched"
  by (induction sched arbitrary: s0 tr) (auto split: option.splits)

lemma run_take:
  "run C s0 sched = Some (tr, s) \<Longrightarrow> \<exists>s'. run C s0 (take k sched) = Some (take k tr, s')"
proof (induction sched arbitrary: s0 tr k)
  case Nil
  then show ?case by simp
next
  case (Cons a sched)
  from Cons.prems obtain e s1 tr1 where st: "step C s0 a = Some (e, s1)"
    and r: "run C s1 sched = Some (tr1, s)" and tr: "tr = (a, e) # tr1"
    by (auto split: option.splits)
  show ?case
  proof (cases k)
    case 0
    then show ?thesis by simp
  next
    case (Suc j)
    from Cons.IH [OF r, of j] obtain s' where "run C s1 (take j sched) = Some (take j tr1, s')"
      by blast
    then show ?thesis using st tr Suc by simp
  qed
qed

lemma holder_not_blocked:
  assumes "mutex_inv s" "occupied_inv s" "chairs_inv C s" "bound_inv C s"
    and "count_mutex s = Some i"
  shows "step C s (Student i) \<noteq> None"
proof -
  from mutex_invD2 [OF assms(1,5)] have i: "i < length (student_at s)"
    and h: "holds_lock (student_at s ! i)" by simp_all
  show ?thesis
  proof (cases "student_at s ! i = S_TakeChair")
    case True
    from chair_available [OF assms(2,3,4) i True] show ?thesis
      using i True by (simp add: step_def student_thread_func_def sem_wait_def)
  next
    case False
    then show ?thesis using h i
      by (cases "student_at s ! i") (simp_all add: step_def student_thread_func_def)
  qed
qed

lemma step_ta_ops:
  assumes "step C s a = Some (e, s')"
    and "e = SemWait student_present_for_ta \<or> e = SemPost ta_ready_for_student
         \<or> e = SemPost consultation_finished"
  shows "a = TA"
proof (cases a)
  case TA
  then show ?thesis .
next
  case (Student i)
  with assms(1) have "student_thread_func C i s = Some (e, s')" by (simp add: step_student)
  then show ?thesis using assms(2) by (cases rule: student_step_cases) simp_all
qed

lemma run_ta_only:
  assumes "run C s0 sched = Some (tr, s)"
  shows "ta_only tr"
  using assms
proof (rule run_invariant [where P = "\<lambda>tr s. ta_only tr"])
  show "ta_only []" by (simp add: ta_only_def)
next
  fix tr s a e s'
  assume "ta_only tr" "step C s a = Some (e, s')"
  then show "ta_only (tr @ [(a, e)])"
    using step_ta_ops [of C s a e s'] by (auto simp: ta_only_def)
qed

lemma lockstep_bounds:
  assumes "ta_lockstep tr s" "sem_account tr s"
  shows "count_op (SemPost consultation_finished) tr \<le> count_op (SemPost ta_ready_for_student) tr
         \<and> count_op (SemPost ta_ready_for_student) tr \<le> count_op (SemWait student_present_for_ta) tr
         \<and> count_op (SemWait student_present_for_ta) tr \<le> count_op (SemPost student_present_for_ta) tr
         \<and> count_op (SemWait student_present_for_ta) tr
             \<le> count_op (SemPost consultation_finished) tr + 1"
  using assms by (auto simp: ta_lockstep_def sem_account_def split: if_splits)

lemma all_left_counts:
  assumes "\<forall>i < length (student_at s). student_at s ! i = S_Served \<or> student_at s ! i = S_Balked"
  shows "count_at announced s = count_at served s" "count_at summoned s = count_at served s"
proof -
  have "filter announced (student_at s) = filter served (student_at s)"
    using assms by (intro filter_cong) (auto simp: in_set_conv_nth)
  then show "count_at announced s = count_at served s" by (simp add: count_at_def)
  have "filter summoned (student_at s) = filter served (student_at s)"
    using assms by (intro filter_cong) (auto simp: in_set_conv_nth)
  then show "count_at summoned s = count_at served s" by (simp add: count_at_def)
qed

lemma on_balk_path_simps [simp]:
  "on_balk_path S_Arrive = True" "on_balk_path S_Lock = True" "on_balk_path S_Check = True"
  "on_balk_path S_Inc = False" "on_balk_path S_TakeChair = False"
  "on_balk_path S_Unlock = False" "on_balk_path S_Announce = False"
  "on_balk_path S_AwaitTA = False" "on_balk_path S_LeaveChair = False"
  "on_balk_path S_Lock2 = False" "on_balk_path S_Dec = False" "on_balk_path S_Unlock2 = False"
  "on_balk_path S_Consult = False" "on_balk_path S_Served = False"
  "on_balk_path S_BalkUnlock = True" "on_balk_path S_Balked = True"
  by (simp_all add: on_balk_path_def)

lemma sum_remaining_goto:
  assumes "i < length (student_at s)" "remaining (student_at s ! i) = Suc (remaining l)"
  shows "Suc (sum_list (map remaining (student_at (goto i l s)))) =
         sum_list (map remaining (student_at s))"
proof -
  have "sum_list (map remaining ((student_at s)[i := l])) =
        sum_list (map remaining (student_at s)) + remaining l - remaining (student_at s ! i)"
    using assms(1) by (simp add: map_update sum_list_update)
  moreover have "remaining (student_at s ! i) \<le> sum_list (map remaining (student_at s))"
    using assms(1) by (simp add: member_le_sum_list)
  ultimately show ?thesis using assms(2) by simp
qed

lemma balk_path_goto:
  assumes "\<forall>j < length (student_at s). on_balk_path (student_at s ! j)" "on_balk_path l"
  shows "\<forall>j < length (student_at (goto i l s)). on_balk_path (student_at (goto i l s) ! j)"
proof (intro allI impI)
  fix j assume "j < length (student_at (goto i l s))"
  then have j: "j < length (student_at s)" by simp
  with assms(1) have "on_balk_path (student_at s ! j)" by simp
  with assms(2) j show "on_balk_path (student_at (goto i l s) ! j)"
    by (cases "j = i") simp_all
qed

lemma closed_inv_upd [simp]:
  "closed_inv tr (s\<lparr>count_mutex := m\<rparr>) = closed_inv tr s"
  by (simp add: closed_inv_def)

lemma closed_inv_goto:
  assumes "closed_inv tr s" "i < length (student_at s)" "on_balk_path l"
    and "remaining (student_at s ! i) = Suc (remaining l)"
  shows "closed_inv (tr @ [(Student i, e)]) (goto i l s)"
proof -
  from assms(1) have bp: "\<forall>j < length (student_at s). on_balk_path (student_at s ! j)"
    and z: "num_students_in_chairs s = 0" "student_present_for_ta_sem s = 0" "ta_at s = T_Wait"
    and nta: "\<forall>x \<in> set tr. fst x \<noteq> TA"
    and len: "length tr + sum_list (map remaining (student_at s)) = 4 * length (student_at s)"
    by (simp_all add: closed_inv_def)
  have "length (tr @ [(Student i, e)]) + sum_list (map remaining (student_at (goto i l s))) =
        4 * length (student_at (goto i l s))"
    using sum_remaining_goto [OF assms(2,4)] len by simp
  then show ?thesis
    unfolding closed_inv_def
    using balk_path_goto [OF bp assms(3), of i] z nta by simp
qed

lemma step_closed_inv:
  assumes "step 0 s a = Some (e, s')" "closed_inv tr s"
  shows "closed_inv (tr @ [(a, e)]) s'"
proof (cases a)
  case TA
  with assms(1) have "ta_thread_func s = Some (e, s')" by (simp add: step_def)
  then show ?thesis using assms(2)
    by (cases rule: ta_step_cases) (simp_all add: closed_inv_def)
next
  case (Student i)
  with assms(1) have i: "i < length (student_at s)"
    and st: "student_thread_func 0 i s = Some (e, s')"
    by (simp_all add: step_student)
  from assms(2) i have bi: "on_balk_path (student_at s ! i)"
    and z: "num_students_in_chairs s = 0"
    by (simp_all add: closed_inv_def)
  from st show ?thesis using bi z i assms(2) Student
    by (cases rule: student_step_cases) (simp_all add: closed_inv_goto)
qed

lemma init_closed_inv: "closed_inv [] (init 0 n)"
  by (simp add: closed_inv_def sum_list_replicate)

lemma run_closed_inv:
  assumes "run 0 (init 0 n) sched = Some (tr, s)"
  shows "closed_inv tr s"
  using assms
proof (rule run_invariant)
  show "closed_inv [] (init 0 n)" by (rule init_closed_inv)
next
  fix tr s a e s'
  assume "closed_inv tr s" "step 0 s a = Some (e, s')"
  then show "closed_inv (tr @ [(a, e)]) s'" using step_closed_inv by blast
qed

lemma stuck_all_balked:
  assumes "mutex_inv s" "\<forall>j < length (student_at s). on_balk_path (student_at s ! j)"
    and "\<forall>a. step C s a = None" "i < length (student_at s)"
  shows "student_at s ! i = S_Balked"
proof -
  have enabled: "student_at s ! j \<noteq> S_Arrive \<and> student_at s ! j \<noteq> S_Check
                 \<and> student_at s ! j \<noteq> S_BalkUnlock"
    if "j < length (student_at s)" for j
    using assms(3) [rule_format, of "Student j"] that
    by (auto simp: step_def student_thread_func_def)
  have "count_mutex s = None"
  proof (cases "count_mutex s")
    case None
    then show ?thesis .
  next
    case (Some j)
    from mutex_invD2 [OF assms(1) Some] have j: "j < length (student_at s)"
      and h: "holds_lock (student_at s ! j)" by simp_all
    from assms(2) j have "on_balk_path (student_at s ! j)" by simp
    with h enabled [OF j] show ?thesis by (cases "student_at s ! j") simp_all
  qed
  then have "student_at s ! i \<noteq> S_Lock"
    using assms(3) [rule_format, of "Student i"] assms(4)
    by (auto simp: step_def student_thread_func_def pthread_mutex_lock_def)
  moreover from assms(2,4) have "on_balk_path (student_at s ! i)" by simp
  ultimately show ?thesis using enabled [OF assms(4)]
    by (cases "student_at s ! i") simp_all
qed

lemma count_at_zero:
  assumes "\<forall>j < length (student_at s). \<not> P (student_at s ! j)"
  shows "count_at P s = 0"
  using assms by (auto simp: count_at_def filter_empty_conv in_set_conv_nth)

declare create_students.simps [simp del]

lemma create_students_closed:
  "create_students i N mf cf =
     map (\<lambda>k. Student (nat k)) (filter (\<lambda>k. k \<notin> set mf \<and> k \<notin> set cf) [i..N - 1])"
proof (induction i N mf cf rule: create_students.induct)
  case (1 i N mf cf)
  show ?case
  proof (cases "i < N")
    case True
    then have u: "[i..N - 1] = i # [i + 1..N - 1]" by (simp add: upto_rec1)
    show ?thesis
      using True 1 by (subst create_students.simps) (simp add: u)
  next
    case False
    then show ?thesis by (subst create_students.simps) simp
  qed
qed

lemma released_simps [simp]:
  "released S_Arrive = False" "released S_Lock = False" "released S_Check = False"
  "released S_Inc = False" "released S_TakeChair = False" "released S_Unlock = False"
  "released S_Announce = False" "released S_AwaitTA = False" "released S_LeaveChair = False"
  "released S_Lock2 = True" "released S_Dec = True" "released S_Unlock2 = True"
  "released S_Consult = True" "released S_Served = True" "released S_BalkUnlock = False"
  "released S_Balked = False"
  "decremented S_Arrive = False" "decremented S_Lock = False" "decremented S_Check = False"
  "decremented S_Inc = False" "decremented S_TakeChair = False"
  "decremented S_Unlock = False" "decremented S_Announce = False"
  "decremented S_AwaitTA = False" "decremented S_LeaveChair = False"
  "decremented S_Lock2 = False" "decremented S_Dec = False" "decremented S_Unlock2 = True"
  "decremented S_Consult = True" "decremented S_Served = True"
  "decremented S_BalkUnlock = False" "decremented S_Balked = False"
  by (simp_all add: released_def decremented_def)

lemma step_release_account:
  assumes "step C s a = Some (e, s')" "release_account tr s"
  shows "release_account (tr @ [(a, e)]) s'"
proof (cases a)
  case TA
  with assms(1) have "ta_thread_func s = Some (e, s')" by (simp add: step_def)
  then show ?thesis using assms(2)
    by (cases rule: ta_step_cases) (simp_all add: release_account_def)
next
  case (Student i)
  with assms(1) have i: "i < length (student_at s)"
    and st: "student_thread_func C i s = Some (e, s')"
    by (simp_all add: step_student)
  from st show ?thesis using assms(2) i
    by (cases rule: student_step_cases) (simp_all add: release_account_def count_at_goto)
qed

lemma run_release_account:
  assumes "run C (init C n) sched = Some (tr, s)"
  shows "release_account tr s"
  using assms
proof (rule run_invariant)
  show "release_account [] (init C n)"
    by (simp add: release_account_def count_at_def filter_replicate_False)
next
  fix tr s a e s'
  assume "release_account tr s" "step C s a = Some (e, s')"
  then show "release_account (tr @ [(a, e)]) s'" using step_release_account by blast
qed

lemma filter_length_mono:
  assumes "\<And>x. P x \<Longrightarrow> Q x"
  shows "length (filter P xs) \<le> length (filter Q xs)"
proof -
  have "filter P xs = filter P (filter Q xs)"
    using assms by (auto intro: filter_cong)
  then show ?thesis by (metis length_filter_le)
qed

lemma summon_chain:
  assumes "sem_account tr s" "student_account tr s" "release_account tr s"
  shows "count_op DecCount tr \<le> count_op (SemPost waiting_room_chairs) tr
         \<and> count_op (SemPost waiting_room_chairs) tr \<le> count_op (SemWait ta_ready_for_student) tr
         \<and> count_op (SemWait ta_ready_for_student) tr \<le> count_op (SemPost ta_ready_for_student) tr"
proof -
  have "count_at decremented s \<le> count_at released s"
    unfolding count_at_def
    by (rule filter_length_mono) (auto simp: decremented_def released_def)
  moreover have "count_at released s \<le> count_at summoned s"
    unfolding count_at_def
    by (rule filter_length_mono) (auto simp: released_def summoned_def)
  ultimately show ?thesis
    using assms by (simp add: sem_account_def student_account_def release_account_def)
qed

declare main_join.simps [simp del]

lemma main_join_all_left:
  assumes "\<forall>k. i \<le> k \<and> k < N \<longrightarrow>
             k \<notin> set mf \<and> k \<notin> set cf \<and> nat k < length (student_at s) \<and>
             (student_at s ! nat k = S_Served \<or> student_at s ! nat k = S_Balked)"
  shows "main_join i N mf cf s = Returned 0"
  using assms
proof (induction i N mf cf s rule: main_join.induct)
  case (1 i N mf cf s)
  show ?case
  proof (cases "i < N")
    case True
    with "1.prems" have here: "i \<notin> set mf" "i \<notin> set cf" "nat i < length (student_at s)"
      "student_at s ! nat i = S_Served \<or> student_at s ! nat i = S_Balked"
      by simp_all
    have "main_join (i + 1) N mf cf s = Returned 0"
    proof (rule "1.IH")
      show "i < N" by (rule True)
      show "\<not> (i \<in> set mf \<or> i \<in> set cf \<or> length (student_at s) \<le> nat i)"
        using here by simp
      show "student_at s ! nat i = S_Served \<or> student_at s ! nat i = S_Balked"
        using here by simp
      show "\<forall>k. i + 1 \<le> k \<and> k < N \<longrightarrow>
             k \<notin> set mf \<and> k \<notin> set cf \<and> nat k < length (student_at s) \<and>
             (student_at s ! nat k = S_Served \<or> student_at s ! nat k = S_Balked)"
        using "1.prems" by simp
    qed
    then show ?thesis using True here by (subst main_join.simps) auto
  next
    case False
    then show ?thesis by (subst main_join.simps) simp
  qed
qed

subsection \<open>The claims\<close>

text \<open>
  C1 (at most one student is in consultation while the TA helps; the completion posted in
  an iteration is consumed by the student that iteration summoned). The code does not
  guarantee this. With one chair and two students, student 0 is summoned and reaches
  line 88; the TA posts the completion and, in its next iteration, summons student 1,
  which also reaches line 88 before student 0 has consumed the completion: the TA is in
  its helping step with two students in consultation and one completion pending. Student
  1 then consumes the completion posted by the previous iteration and leaves as served
  while the TA is still helping in the iteration that summoned it.
\<close>

theorem two_students_in_consultation:
  "map_option (\<lambda>p. (ta_at (snd p), student_at (snd p), consultation_finished_sem (snd p)))
     (run 1 (init 1 2)
        [Student 0, Student 0, Student 0, Student 0, Student 0, Student 0, Student 0,
         TA, TA,
         Student 0, Student 0, Student 0, Student 0, Student 0,
         Student 1, Student 1, Student 1, Student 1, Student 1, Student 1, Student 1,
         TA, TA, TA, TA,
         Student 1, Student 1, Student 1, Student 1, Student 1]) =
     Some (T_Help, [S_Consult, S_Consult], 1)
   \<and> map_option (\<lambda>p. (ta_at (snd p), student_at (snd p), consultation_finished_sem (snd p)))
     (run 1 (init 1 2)
        [Student 0, Student 0, Student 0, Student 0, Student 0, Student 0, Student 0,
         TA, TA,
         Student 0, Student 0, Student 0, Student 0, Student 0,
         Student 1, Student 1, Student 1, Student 1, Student 1, Student 1, Student 1,
         TA, TA, TA, TA,
         Student 1, Student 1, Student 1, Student 1, Student 1,
         Student 1]) =
     Some (T_Help, [S_Consult, S_Served], 0)"
  by code_simp

text \<open>
  C2 (one summon and one completion per presence consumed, in strict sequence; signal
  conservation). For every execution from the initial state: in every prefix of the
  trace the completions posted do not exceed the summons posted, the summons posted do
  not exceed the presences consumed, the presences consumed do not exceed the presences
  posted, and at most one consumed presence is without its completion; the three
  operations are performed by the TA only; the counts differ exactly by the iteration
  the TA is in the middle of (so they are equal whenever the TA is at the head of its
  loop); a TA that has consumed a presence posts the summon and then the completion in
  its next three steps without blocking; and once every student has left, the TA is at
  the head of its loop and presences posted, presences consumed, summons posted and
  completions posted are all equal.
\<close>

theorem ta_signal_conservation:
  assumes "run C (init C n) sched = Some (tr, s)"
  shows "(\<forall>k. count_op (SemPost consultation_finished) (take k tr)
                 \<le> count_op (SemPost ta_ready_for_student) (take k tr)
              \<and> count_op (SemPost ta_ready_for_student) (take k tr)
                 \<le> count_op (SemWait student_present_for_ta) (take k tr)
              \<and> count_op (SemWait student_present_for_ta) (take k tr)
                 \<le> count_op (SemPost student_present_for_ta) (take k tr)
              \<and> count_op (SemWait student_present_for_ta) (take k tr)
                 \<le> count_op (SemPost consultation_finished) (take k tr) + 1)
         \<and> (\<forall>x \<in> set tr.
               snd x = SemWait student_present_for_ta \<or> snd x = SemPost ta_ready_for_student
               \<or> snd x = SemPost consultation_finished \<longrightarrow> fst x = TA)
         \<and> count_op (SemWait student_present_for_ta) tr =
             count_op (SemPost ta_ready_for_student) tr + (if ta_at s = T_Call then 1 else 0)
         \<and> count_op (SemPost ta_ready_for_student) tr =
             count_op (SemPost consultation_finished) tr
               + (if ta_at s = T_Help \<or> ta_at s = T_Finish then 1 else 0)
         \<and> (ta_at s = T_Call \<longrightarrow>
               (\<exists>s'. run C s [TA, TA, TA] =
                       Some ([(TA, SemPost ta_ready_for_student), (TA, Sleep),
                              (TA, SemPost consultation_finished)], s')
                     \<and> ta_at s' = T_Wait))
         \<and> ((\<forall>i < n. student_at s ! i = S_Served \<or> student_at s ! i = S_Balked) \<longrightarrow>
               ta_at s = T_Wait
               \<and> count_op (SemWait student_present_for_ta) tr
                   = count_op (SemPost student_present_for_ta) tr
               \<and> count_op (SemPost ta_ready_for_student) tr
                   = count_op (SemPost student_present_for_ta) tr
               \<and> count_op (SemPost consultation_finished) tr
                   = count_op (SemPost student_present_for_ta) tr)"
proof -
  from run_trace_inv [OF assms] have l: "ta_lockstep tr s" and a: "sem_account tr s"
    and sa: "student_account tr s" by simp_all
  have n: "length (student_at s) = n" using run_length [OF assms] by simp
  have pre: "count_op (SemPost consultation_finished) (take k tr)
                 \<le> count_op (SemPost ta_ready_for_student) (take k tr)
              \<and> count_op (SemPost ta_ready_for_student) (take k tr)
                 \<le> count_op (SemWait student_present_for_ta) (take k tr)
              \<and> count_op (SemWait student_present_for_ta) (take k tr)
                 \<le> count_op (SemPost student_present_for_ta) (take k tr)
              \<and> count_op (SemWait student_present_for_ta) (take k tr)
                 \<le> count_op (SemPost consultation_finished) (take k tr) + 1" for k
  proof -
    from run_take [OF assms, of k] obtain s' where
      "run C (init C n) (take k sched) = Some (take k tr, s')" by blast
    from run_trace_inv [OF this] show ?thesis using lockstep_bounds by blast
  qed
  have only: "\<forall>x \<in> set tr.
               snd x = SemWait student_present_for_ta \<or> snd x = SemPost ta_ready_for_student
               \<or> snd x = SemPost consultation_finished \<longrightarrow> fst x = TA"
    using run_ta_only [OF assms] by (simp add: ta_only_def)
  have c1: "count_op (SemWait student_present_for_ta) tr =
             count_op (SemPost ta_ready_for_student) tr + (if ta_at s = T_Call then 1 else 0)"
    and c2: "count_op (SemPost ta_ready_for_student) tr =
             count_op (SemPost consultation_finished) tr
               + (if ta_at s = T_Help \<or> ta_at s = T_Finish then 1 else 0)"
    using l by (simp_all add: ta_lockstep_def)
  have iter: "\<exists>s'. run C s [TA, TA, TA] =
                       Some ([(TA, SemPost ta_ready_for_student), (TA, Sleep),
                              (TA, SemPost consultation_finished)], s')
                     \<and> ta_at s' = T_Wait" if "ta_at s = T_Call"
    using that by (simp add: step_def ta_thread_func_def)
  have fin: "ta_at s = T_Wait
               \<and> count_op (SemWait student_present_for_ta) tr
                   = count_op (SemPost student_present_for_ta) tr
               \<and> count_op (SemPost ta_ready_for_student) tr
                   = count_op (SemPost student_present_for_ta) tr
               \<and> count_op (SemPost consultation_finished) tr
                   = count_op (SemPost student_present_for_ta) tr"
    if "\<forall>i < n. student_at s ! i = S_Served \<or> student_at s ! i = S_Balked"
  proof -
    from that n have
      "\<forall>i < length (student_at s). student_at s ! i = S_Served \<or> student_at s ! i = S_Balked"
      by simp
    from all_left_counts [OF this] sa
    have e1: "count_op (SemPost student_present_for_ta) tr
                = count_op (SemWait consultation_finished) tr"
      by (simp add: student_account_def)
    from a have "count_op (SemWait consultation_finished) tr
                   \<le> count_op (SemPost consultation_finished) tr"
      by (simp add: sem_account_def)
    with e1 lockstep_bounds [OF l a] c1 c2 show ?thesis
      by (cases "ta_at s") simp_all
  qed
  show ?thesis using pre only c1 c2 iter fin by blast
qed

theorem ta_signal_conservation_witness:
  "\<exists>tr s. run 1 (init 1 1)
             [Student 0, Student 0, Student 0, Student 0, Student 0, Student 0, Student 0,
              TA, TA,
              Student 0, Student 0, Student 0, Student 0, Student 0,
              TA, TA, Student 0] = Some (tr, s)
         \<and> student_at s = [S_Served] \<and> ta_at s = T_Wait
         \<and> count_op (SemPost student_present_for_ta) tr = 1
         \<and> count_op (SemWait student_present_for_ta) tr = 1
         \<and> count_op (SemPost ta_ready_for_student) tr = 1
         \<and> count_op (SemPost consultation_finished) tr = 1"
proof -
  let ?sched = "[Student 0, Student 0, Student 0, Student 0, Student 0, Student 0, Student 0,
              TA, TA,
              Student 0, Student 0, Student 0, Student 0, Student 0,
              TA, TA, Student 0]"
  have ev: "map_option (\<lambda>p. (student_at (snd p), count_op (SemPost student_present_for_ta) (fst p)))
              (run 1 (init 1 1) ?sched) = Some ([S_Served], 1)"
    by code_simp
  then obtain tr s where r: "run 1 (init 1 1) ?sched = Some (tr, s)"
    and at: "student_at s = [S_Served]"
    and p: "count_op (SemPost student_present_for_ta) tr = 1"
    by auto
  from at have "\<forall>i < 1. student_at s ! i = S_Served \<or> student_at s ! i = S_Balked" by simp
  with ta_signal_conservation [OF r]
  have "ta_at s = T_Wait
        \<and> count_op (SemWait student_present_for_ta) tr
            = count_op (SemPost student_present_for_ta) tr
        \<and> count_op (SemPost ta_ready_for_student) tr
            = count_op (SemPost student_present_for_ta) tr
        \<and> count_op (SemPost consultation_finished) tr
            = count_op (SemPost student_present_for_ta) tr"
    by blast
  with r at p show ?thesis by simp
qed

text \<open>
  C3 (\<open>0 \<le> occupied \<le> C\<close> in every reachable state). The counter starts at 0; in every
  state reached from the initial state it is between 0 and the capacity; an increment
  can only be performed by a student that holds the lock, and only while the counter is
  below the capacity; a decrement can only be performed by a student that holds the
  lock and has performed an increment before.
\<close>

theorem occupied_bounded:
  assumes "0 \<le> C" "run C (init C n) sched = Some (tr, s)"
  shows "num_students_in_chairs (init C n) = 0
         \<and> 0 \<le> num_students_in_chairs s \<and> num_students_in_chairs s \<le> C
         \<and> (\<forall>a s'. step C s a = Some (IncCount, s') \<longrightarrow>
               num_students_in_chairs s < C \<and> (\<exists>i. a = Student i \<and> count_mutex s = Some i))
         \<and> (\<forall>a s'. step C s a = Some (DecCount, s') \<longrightarrow>
               (\<exists>i. a = Student i \<and> count_mutex s = Some i
                    \<and> IncCount \<in> set (ops_of (Student i) tr)))"
proof -
  from run_state_inv [OF assms] have n: "length (student_at s) = n" and m: "mutex_inv s"
    and o: "occupied_inv s" and b: "bound_inv C s"
    by simp_all
  from run_trace_inv [OF assms(2)] have ord: "order_inv tr s" by simp
  have inc: "num_students_in_chairs s < C \<and> (\<exists>i. a = Student i \<and> count_mutex s = Some i)"
    if st: "step C s a = Some (IncCount, s')" for a s'
  proof (cases a)
    case TA
    with st have "ta_thread_func s = Some (IncCount, s')" by (simp add: step_def)
    then show ?thesis by (cases rule: ta_step_cases) simp_all
  next
    case (Student i)
    with st have i: "i < length (student_at s)"
      and f: "student_thread_func C i s = Some (IncCount, s')"
      by (simp_all add: step_student)
    from f have at: "student_at s ! i = S_Inc" by (cases rule: student_step_cases) simp_all
    with b i have "num_students_in_chairs s < C" by (simp add: bound_inv_def)
    moreover have "count_mutex s = Some i" using mutex_invD1 [OF m i] at by simp
    ultimately show ?thesis using Student by simp
  qed
  have dec: "\<exists>i. a = Student i \<and> count_mutex s = Some i
                \<and> IncCount \<in> set (ops_of (Student i) tr)"
    if st: "step C s a = Some (DecCount, s')" for a s'
  proof (cases a)
    case TA
    with st have "ta_thread_func s = Some (DecCount, s')" by (simp add: step_def)
    then show ?thesis by (cases rule: ta_step_cases) simp_all
  next
    case (Student i)
    with st have i: "i < length (student_at s)"
      and f: "student_thread_func C i s = Some (DecCount, s')"
      by (simp_all add: step_student)
    from f have at: "student_at s ! i = S_Dec" by (cases rule: student_step_cases) simp_all
    have "count_mutex s = Some i" using mutex_invD1 [OF m i] at by simp
    moreover have "ops_of (Student i) tr = history S_Dec"
      using ord i at by (simp add: order_inv_def)
    then have "IncCount \<in> set (ops_of (Student i) tr)" by (simp add: served_path_def)
    ultimately show ?thesis using Student by simp
  qed
  have "0 \<le> num_students_in_chairs s" using o by (simp add: occupied_inv_def)
  moreover have "num_students_in_chairs s \<le> C" using b by (simp add: bound_inv_def)
  ultimately show ?thesis using inc dec by simp
qed

theorem occupied_bounded_witness:
  "(0::int) \<le> 1
   \<and> run 1 (init 1 1) [Student 0, Student 0, Student 0] =
       Some ([(Student 0, Sleep), (Student 0, MutexLock), (Student 0, ReadCount)],
             \<lparr>waiting_room_chairs_sem = 1, student_present_for_ta_sem = 0,
              ta_ready_for_student_sem = 0, consultation_finished_sem = 0,
              count_mutex = Some 0, num_students_in_chairs = 0, ta_at = T_Wait,
              student_at = [S_Inc]\<rparr>)
   \<and> step 1 \<lparr>waiting_room_chairs_sem = 1, student_present_for_ta_sem = 0,
              ta_ready_for_student_sem = 0, consultation_finished_sem = 0,
              count_mutex = Some 0, num_students_in_chairs = 0, ta_at = T_Wait,
              student_at = [S_Inc]\<rparr> (Student 0) =
       Some (IncCount,
             \<lparr>waiting_room_chairs_sem = 1, student_present_for_ta_sem = 0,
              ta_ready_for_student_sem = 0, consultation_finished_sem = 0,
              count_mutex = Some 0, num_students_in_chairs = 1, ta_at = T_Wait,
              student_at = [S_TakeChair]\<rparr>)
   \<and> (\<exists>i. Student 0 = Student i \<and> Some (0::nat) = Some i)"
proof -
  let ?s = "\<lparr>waiting_room_chairs_sem = 1, student_present_for_ta_sem = 0,
              ta_ready_for_student_sem = 0, consultation_finished_sem = 0,
              count_mutex = Some 0, num_students_in_chairs = 0, ta_at = T_Wait,
              student_at = [S_Inc]\<rparr>"
  have r: "run 1 (init 1 1) [Student 0, Student 0, Student 0] =
       Some ([(Student 0, Sleep), (Student 0, MutexLock), (Student 0, ReadCount)], ?s)"
    by code_simp
  have st: "step 1 ?s (Student 0) =
       Some (IncCount,
             \<lparr>waiting_room_chairs_sem = 1, student_present_for_ta_sem = 0,
              ta_ready_for_student_sem = 0, consultation_finished_sem = 0,
              count_mutex = Some 0, num_students_in_chairs = 1, ta_at = T_Wait,
              student_at = [S_TakeChair]\<rparr>)"
    by code_simp
  have "(0::int) \<le> 1" by simp
  from occupied_bounded [OF this r] st
  have "\<exists>i. Student 0 = Student i \<and> count_mutex ?s = Some i" by blast
  then show ?thesis using r st by simp
qed

text \<open>
  C4 (the admission check is one critical section, atomic with respect to other
  students). In every reachable state at most one student is between a lock and its
  unlock; a student at the check holds the lock, and its check moves it to the increment
  when the counter is below the capacity and to the balking unlock otherwise, changing
  nothing but its own location; a student at the increment holds the lock and the
  counter is still below the capacity; a balking student only releases the lock; the
  counter equals the number of committed students and never exceeds the capacity; and
  when one admission slot remains, no continuation without a decrement contains more
  than one increment.
\<close>

theorem admission_atomic:
  assumes "0 \<le> C" "run C (init C n) sched = Some (tr, s)"
  shows "(\<forall>i j. i < n \<and> j < n \<and> holds_lock (student_at s ! i) \<and> holds_lock (student_at s ! j)
            \<longrightarrow> i = j)
         \<and> (\<forall>i. i < n \<and> student_at s ! i = S_Check \<longrightarrow>
               count_mutex s = Some i \<and>
               step C s (Student i) =
                 Some (ReadCount,
                       goto i (if num_students_in_chairs s < C then S_Inc else S_BalkUnlock) s))
         \<and> (\<forall>i. i < n \<and> student_at s ! i = S_Inc \<longrightarrow>
               count_mutex s = Some i \<and> num_students_in_chairs s < C \<and>
               step C s (Student i) =
                 Some (IncCount,
                       goto i S_TakeChair
                         (s\<lparr>num_students_in_chairs := num_students_in_chairs s + 1\<rparr>)))
         \<and> (\<forall>i. i < n \<and> student_at s ! i = S_BalkUnlock \<longrightarrow>
               count_mutex s = Some i \<and>
               step C s (Student i) =
                 Some (MutexUnlock, goto i S_Balked (s\<lparr>count_mutex := None\<rparr>)))
         \<and> num_students_in_chairs s = int (count_at committed s)
         \<and> num_students_in_chairs s \<le> C
         \<and> (\<forall>sched' tr' s'. run C s sched' = Some (tr', s') \<and>
               num_students_in_chairs s = C - 1 \<and> count_op DecCount tr' = 0
               \<longrightarrow> count_op IncCount tr' \<le> 1)"
proof -
  from run_state_inv [OF assms] have n: "length (student_at s) = n" and m: "mutex_inv s"
    and o: "occupied_inv s" and b: "bound_inv C s"
    by simp_all
  have excl: "i = j"
    if "i < n" "j < n" "holds_lock (student_at s ! i)" "holds_lock (student_at s ! j)" for i j
    using mutex_inv_unique [OF m] that n by simp
  have chk: "count_mutex s = Some i \<and>
             step C s (Student i) =
               Some (ReadCount,
                     goto i (if num_students_in_chairs s < C then S_Inc else S_BalkUnlock) s)"
    if "i < n" "student_at s ! i = S_Check" for i
    using mutex_invD1 [OF m, of i] that n by (simp add: step_def student_thread_func_def)
  have inc: "count_mutex s = Some i \<and> num_students_in_chairs s < C \<and>
             step C s (Student i) =
               Some (IncCount,
                     goto i S_TakeChair
                       (s\<lparr>num_students_in_chairs := num_students_in_chairs s + 1\<rparr>))"
    if "i < n" "student_at s ! i = S_Inc" for i
    using mutex_invD1 [OF m, of i] that n b
    by (simp add: step_def student_thread_func_def bound_inv_def)
  have blk: "count_mutex s = Some i \<and>
             step C s (Student i) =
               Some (MutexUnlock, goto i S_Balked (s\<lparr>count_mutex := None\<rparr>))"
    if "i < n" "student_at s ! i = S_BalkUnlock" for i
    using mutex_invD1 [OF m, of i] that n
    by (simp add: step_def student_thread_func_def pthread_mutex_unlock_def)
  have one: "count_op IncCount tr' \<le> 1"
    if r: "run C s sched' = Some (tr', s')" and k: "num_students_in_chairs s = C - 1"
      and d: "count_op DecCount tr' = 0" for sched' tr' s'
  proof -
    have "run C (init C n) (sched @ sched') = Some (tr @ tr', s')"
      using assms(2) r by (simp add: run_append)
    from run_state_inv [OF assms(1) this] have "num_students_in_chairs s' \<le> C"
      by (simp add: bound_inv_def)
    with run_num [OF r] k d show ?thesis by simp
  qed
  have "num_students_in_chairs s = int (count_at committed s)"
    using o by (simp add: occupied_inv_def)
  moreover have "num_students_in_chairs s \<le> C" using b by (simp add: bound_inv_def)
  ultimately show ?thesis using excl chk inc blk one by blast
qed

theorem admission_atomic_witness:
  "(\<exists>tr s. run 1 (init 1 2)
              [Student 0, Student 0, Student 0, Student 0, Student 0, Student 0,
               Student 1, Student 1] = Some (tr, s)
           \<and> student_at s = [S_Announce, S_Check] \<and> num_students_in_chairs s = 1
           \<and> count_mutex s = Some 1
           \<and> step 1 s (Student 1) = Some (ReadCount, goto 1 S_BalkUnlock s))
   \<and> (\<exists>tr' s'. run 1 (init 1 2)
              [Student 0, Student 1, Student 0, Student 0, Student 0, Student 0, Student 0,
               Student 1, Student 1] = Some (tr', s')
           \<and> num_students_in_chairs (init 1 2) = 1 - 1
           \<and> count_op DecCount tr' = 0 \<and> count_op IncCount tr' \<le> 1
           \<and> student_at s' = [S_Announce, S_BalkUnlock])"
proof -
  let ?sched = "[Student 0, Student 0, Student 0, Student 0, Student 0, Student 0,
               Student 1, Student 1]"
  have ev: "map_option (\<lambda>p. (student_at (snd p), num_students_in_chairs (snd p)))
              (run 1 (init 1 2) ?sched) = Some ([S_Announce, S_Check], 1)"
    by code_simp
  then obtain tr s where r: "run 1 (init 1 2) ?sched = Some (tr, s)"
    and at: "student_at s = [S_Announce, S_Check]" and k: "num_students_in_chairs s = 1"
    by auto
  have c: "(0::int) \<le> 1" by simp
  from admission_atomic [OF c r] at
  have "count_mutex s = Some 1 \<and>
        step 1 s (Student 1) =
          Some (ReadCount, goto 1 (if num_students_in_chairs s < 1 then S_Inc else S_BalkUnlock) s)"
    by simp
  with k have first: "count_mutex s = Some 1
      \<and> step 1 s (Student 1) = Some (ReadCount, goto 1 S_BalkUnlock s)"
    by simp
  let ?sched' = "[Student 0, Student 1, Student 0, Student 0, Student 0, Student 0, Student 0,
               Student 1, Student 1]"
  have ev': "map_option (\<lambda>p. (count_op DecCount (fst p), student_at (snd p)))
              (run 1 (init 1 2) ?sched') = Some (0, [S_Announce, S_BalkUnlock])"
    by code_simp
  then obtain tr' s' where r': "run 1 (init 1 2) ?sched' = Some (tr', s')"
    and d: "count_op DecCount tr' = 0" and at': "student_at s' = [S_Announce, S_BalkUnlock]"
    by auto
  have r0: "run 1 (init 1 2) [] = Some ([], init 1 2)" by simp
  have k0: "num_students_in_chairs (init 1 2) = 1 - 1" by (simp add: init_def)
  from admission_atomic [OF c r0] r' k0 d have "count_op IncCount tr' \<le> 1" by blast
  with r at k first r' k0 d at' show ?thesis by blast
qed

text \<open>
  C5 states that the blocking acquire of the chair semaphore is called outside the
  critical section of the admission check. In the code the \<open>sem_wait\<close> of line 71 stands
  between the lock of line 68 and the unlock of line 73: in the execution below the
  student performs it while it holds the lock.
\<close>

theorem acquire_inside_critical_section:
  "run 1 (init 1 1) [Student 0, Student 0, Student 0, Student 0, Student 0] =
     Some ([(Student 0, Sleep), (Student 0, MutexLock), (Student 0, ReadCount),
            (Student 0, IncCount), (Student 0, SemWait waiting_room_chairs)],
           \<lparr>waiting_room_chairs_sem = 0, student_present_for_ta_sem = 0,
            ta_ready_for_student_sem = 0, consultation_finished_sem = 0,
            count_mutex = Some 0, num_students_in_chairs = 1, ta_at = T_Wait,
            student_at = [S_Unlock]\<rparr>)"
  by code_simp

text \<open>
  C5, amended. The acquire of the chair semaphore is performed inside the critical
  section, and it never blocks there: in every reachable state the holder of the lock can
  take its next step, a student at the acquire holds the lock and the chair semaphore is
  positive, the holder of the lock is never at the wait for the summon or for the
  completion (so every step taken under the lock, the check, the increment, the acquire,
  the decrement and the unlock, is enabled), and a post (by a student or by the TA)
  never blocks.
\<close>

theorem lock_holder_never_blocked:
  assumes "0 \<le> C" "run C (init C n) sched = Some (tr, s)"
  shows "(\<forall>i. count_mutex s = Some i \<longrightarrow>
            i < n \<and> holds_lock (student_at s ! i) \<and> step C s (Student i) \<noteq> None
            \<and> student_at s ! i \<noteq> S_AwaitTA \<and> student_at s ! i \<noteq> S_Consult)
         \<and> (\<forall>i. i < n \<and> student_at s ! i = S_TakeChair \<longrightarrow>
               count_mutex s = Some i \<and> 0 < waiting_room_chairs_sem s)
         \<and> (\<forall>i. i < n \<and> (student_at s ! i = S_Announce \<or> student_at s ! i = S_LeaveChair)
               \<longrightarrow> step C s (Student i) \<noteq> None)
         \<and> (ta_at s = T_Wait \<or> step C s TA \<noteq> None)"
proof -
  from run_state_inv [OF assms] have n: "length (student_at s) = n" and m: "mutex_inv s"
    and o: "occupied_inv s" and c: "chairs_inv C s" and b: "bound_inv C s"
    by simp_all
  have hold: "i < n \<and> holds_lock (student_at s ! i) \<and> step C s (Student i) \<noteq> None
            \<and> student_at s ! i \<noteq> S_AwaitTA \<and> student_at s ! i \<noteq> S_Consult"
    if "count_mutex s = Some i" for i
    using mutex_invD2 [OF m that] holder_not_blocked [OF m o c b that] n by auto
  have take: "count_mutex s = Some i \<and> 0 < waiting_room_chairs_sem s"
    if "i < n" "student_at s ! i = S_TakeChair" for i
    using mutex_invD1 [OF m, of i] chair_available [OF o c b, of i] that n by simp
  have post: "step C s (Student i) \<noteq> None"
    if "i < n" "student_at s ! i = S_Announce \<or> student_at s ! i = S_LeaveChair" for i
    using that n by (auto simp: step_def student_thread_func_def)
  have ta: "ta_at s = T_Wait \<or> step C s TA \<noteq> None"
    by (cases "ta_at s") (simp_all add: step_def ta_thread_func_def)
  show ?thesis using hold take post ta by blast
qed

theorem lock_holder_never_blocked_witness:
  "\<exists>tr s. run 1 (init 1 1) [Student 0, Student 0, Student 0, Student 0] = Some (tr, s)
         \<and> student_at s = [S_TakeChair] \<and> count_mutex s = Some 0
         \<and> 0 < waiting_room_chairs_sem s \<and> step 1 s (Student 0) \<noteq> None"
proof -
  let ?sched = "[Student 0, Student 0, Student 0, Student 0]"
  have ev: "map_option (\<lambda>p. (student_at (snd p), count_mutex (snd p)))
              (run 1 (init 1 1) ?sched) = Some ([S_TakeChair], Some 0)"
    by code_simp
  then obtain tr s where r: "run 1 (init 1 1) ?sched = Some (tr, s)"
    and at: "student_at s = [S_TakeChair]" and m: "count_mutex s = Some 0"
    by auto
  have c: "(0::int) \<le> 1" by simp
  from lock_holder_never_blocked [OF c r] at m
  have "step 1 s (Student 0) \<noteq> None" "0 < waiting_room_chairs_sem s" by simp_all
  with r at m show ?thesis by blast
qed

text \<open>
  C6 (the chair is vacated at summon time, not at consultation end). For every
  execution and every student:
  \<^item> a student at the wait for the summon (line 78) is blocked while the summon
    semaphore is 0 and otherwise consumes one summon; its next step is the release of
    the chair (line 81), which is never blocked; a student in consultation (line 88) is
    blocked while the completion semaphore is 0;
  \<^item> summons and completions are posted by the TA only, the students past line 78
    together with the pending summons are exactly the summons the TA has posted, and
    the served students together with the pending completions are exactly the
    completions the TA has posted;
  \<^item> in every prefix of the trace the decrements do not exceed the releases, the
    releases do not exceed the summons received, and these do not exceed the summons
    the TA has posted;
  \<^item> a student in consultation has performed, in this order, the wait for the summon,
    the release of the chair semaphore and the decrement under the lock, and a served
    student the wait for the completion after these;
  \<^item> the chair semaphore plus the number of students between the acquire and the
    release is the capacity, and the counter is the number of students between
    increment and decrement: a student in consultation is counted in neither.
\<close>

theorem chair_vacated_at_summon:
  assumes "0 \<le> C" "run C (init C n) sched = Some (tr, s)" "i < n"
  shows "(student_at s ! i = S_AwaitTA \<longrightarrow>
            (ta_ready_for_student_sem s = 0 \<longrightarrow> step C s (Student i) = None)
            \<and> (0 < ta_ready_for_student_sem s \<longrightarrow>
                 step C s (Student i) =
                   Some (SemWait ta_ready_for_student,
                         goto i S_LeaveChair
                           (s\<lparr>ta_ready_for_student_sem := ta_ready_for_student_sem s - 1\<rparr>))))
         \<and> (student_at s ! i = S_LeaveChair \<longrightarrow>
               step C s (Student i) =
                 Some (SemPost waiting_room_chairs,
                       goto i S_Lock2
                         (s\<lparr>waiting_room_chairs_sem := waiting_room_chairs_sem s + 1\<rparr>)))
         \<and> (student_at s ! i = S_Consult \<longrightarrow>
            (consultation_finished_sem s = 0 \<longrightarrow> step C s (Student i) = None)
            \<and> (0 < consultation_finished_sem s \<longrightarrow>
                 step C s (Student i) =
                   Some (SemWait consultation_finished,
                         goto i S_Served
                           (s\<lparr>consultation_finished_sem := consultation_finished_sem s - 1\<rparr>))))
         \<and> (\<forall>x \<in> set tr.
               snd x = SemPost ta_ready_for_student \<or> snd x = SemPost consultation_finished
               \<longrightarrow> fst x = TA)
         \<and> count_at summoned s + ta_ready_for_student_sem s
             = count_op (SemPost ta_ready_for_student) tr
         \<and> count_at served s + consultation_finished_sem s
             = count_op (SemPost consultation_finished) tr
         \<and> (\<forall>k. count_op DecCount (take k tr)
                   \<le> count_op (SemPost waiting_room_chairs) (take k tr)
                \<and> count_op (SemPost waiting_room_chairs) (take k tr)
                   \<le> count_op (SemWait ta_ready_for_student) (take k tr)
                \<and> count_op (SemWait ta_ready_for_student) (take k tr)
                   \<le> count_op (SemPost ta_ready_for_student) (take k tr))
         \<and> (student_at s ! i = S_Consult \<longrightarrow>
            ops_of (Student i) tr =
              [Sleep, MutexLock, ReadCount, IncCount, SemWait waiting_room_chairs, MutexUnlock,
               SemPost student_present_for_ta, SemWait ta_ready_for_student,
               SemPost waiting_room_chairs, MutexLock, DecCount, MutexUnlock]
            \<and> \<not> holds_chair (student_at s ! i) \<and> \<not> committed (student_at s ! i))
         \<and> (student_at s ! i = S_Served \<longrightarrow>
            ops_of (Student i) tr =
              [Sleep, MutexLock, ReadCount, IncCount, SemWait waiting_room_chairs, MutexUnlock,
               SemPost student_present_for_ta, SemWait ta_ready_for_student,
               SemPost waiting_room_chairs, MutexLock, DecCount, MutexUnlock,
               SemWait consultation_finished])
         \<and> int (waiting_room_chairs_sem s) + int (count_at holds_chair s) = C
         \<and> num_students_in_chairs s = int (count_at committed s)"
proof -
  from run_state_inv [OF assms(1,2)] have n: "length (student_at s) = n"
    and o: "occupied_inv s" and c: "chairs_inv C s"
    by simp_all
  from run_trace_inv [OF assms(2)] have ord: "order_inv tr s" and sa: "sem_account tr s"
    and st: "student_account tr s" by simp_all
  have i: "i < length (student_at s)" using assms(3) n by simp
  have await: "(ta_ready_for_student_sem s = 0 \<longrightarrow> step C s (Student i) = None)
            \<and> (0 < ta_ready_for_student_sem s \<longrightarrow>
                 step C s (Student i) =
                   Some (SemWait ta_ready_for_student,
                         goto i S_LeaveChair
                           (s\<lparr>ta_ready_for_student_sem := ta_ready_for_student_sem s - 1\<rparr>)))"
    if "student_at s ! i = S_AwaitTA"
    using that i by (simp add: step_def student_thread_func_def sem_wait_def)
  have leave: "step C s (Student i) =
                 Some (SemPost waiting_room_chairs,
                       goto i S_Lock2
                         (s\<lparr>waiting_room_chairs_sem := waiting_room_chairs_sem s + 1\<rparr>))"
    if "student_at s ! i = S_LeaveChair"
    using that i by (simp add: step_def student_thread_func_def sem_post_def)
  have consult: "(consultation_finished_sem s = 0 \<longrightarrow> step C s (Student i) = None)
            \<and> (0 < consultation_finished_sem s \<longrightarrow>
                 step C s (Student i) =
                   Some (SemWait consultation_finished,
                         goto i S_Served
                           (s\<lparr>consultation_finished_sem := consultation_finished_sem s - 1\<rparr>)))"
    if "student_at s ! i = S_Consult"
    using that i by (simp add: step_def student_thread_func_def sem_wait_def)
  have only: "\<forall>x \<in> set tr.
               snd x = SemPost ta_ready_for_student \<or> snd x = SemPost consultation_finished
               \<longrightarrow> fst x = TA"
    using run_ta_only [OF assms(2)] by (auto simp: ta_only_def)
  have summ: "count_at summoned s + ta_ready_for_student_sem s
             = count_op (SemPost ta_ready_for_student) tr"
    and serv: "count_at served s + consultation_finished_sem s
             = count_op (SemPost consultation_finished) tr"
    using sa st by (simp_all add: sem_account_def student_account_def)
  have pre: "count_op DecCount (take k tr)
                   \<le> count_op (SemPost waiting_room_chairs) (take k tr)
                \<and> count_op (SemPost waiting_room_chairs) (take k tr)
                   \<le> count_op (SemWait ta_ready_for_student) (take k tr)
                \<and> count_op (SemWait ta_ready_for_student) (take k tr)
                   \<le> count_op (SemPost ta_ready_for_student) (take k tr)" for k
  proof -
    from run_take [OF assms(2), of k] obtain s' where
      r: "run C (init C n) (take k sched) = Some (take k tr, s')" by blast
    from run_trace_inv [OF r] run_release_account [OF r] show ?thesis
      using summon_chain by blast
  qed
  from ord i have h: "ops_of (Student i) tr = history (student_at s ! i)"
    by (simp add: order_inv_def)
  have cons: "ops_of (Student i) tr =
              [Sleep, MutexLock, ReadCount, IncCount, SemWait waiting_room_chairs, MutexUnlock,
               SemPost student_present_for_ta, SemWait ta_ready_for_student,
               SemPost waiting_room_chairs, MutexLock, DecCount, MutexUnlock]
            \<and> \<not> holds_chair (student_at s ! i) \<and> \<not> committed (student_at s ! i)"
    if "student_at s ! i = S_Consult"
    using h that by (simp add: served_path_def)
  have srv: "ops_of (Student i) tr =
              [Sleep, MutexLock, ReadCount, IncCount, SemWait waiting_room_chairs, MutexUnlock,
               SemPost student_present_for_ta, SemWait ta_ready_for_student,
               SemPost waiting_room_chairs, MutexLock, DecCount, MutexUnlock,
               SemWait consultation_finished]"
    if "student_at s ! i = S_Served"
    using h that by (simp add: served_path_def)
  have acc: "int (waiting_room_chairs_sem s) + int (count_at holds_chair s) = C"
    "num_students_in_chairs s = int (count_at committed s)"
    using o c by (simp_all add: occupied_inv_def chairs_inv_def)
  show ?thesis
    using await leave consult only summ serv pre cons srv acc by blast
qed

theorem chair_vacated_at_summon_witness:
  "(\<exists>tr s. run 1 (init 1 1)
             [Student 0, Student 0, Student 0, Student 0, Student 0, Student 0, Student 0]
             = Some (tr, s)
         \<and> student_at s ! 0 = S_AwaitTA \<and> ta_ready_for_student_sem s = 0
         \<and> step 1 s (Student 0) = None \<and> waiting_room_chairs_sem s = 0)
   \<and> run 1 (init 1 1)
        [Student 0, Student 0, Student 0, Student 0, Student 0, Student 0, Student 0,
         Student 0] = None
   \<and> (\<exists>tr s. run 1 (init 1 1)
             [Student 0, Student 0, Student 0, Student 0, Student 0, Student 0, Student 0,
              TA, TA,
              Student 0, Student 0, Student 0, Student 0, Student 0] = Some (tr, s)
         \<and> student_at s ! 0 = S_Consult \<and> ta_at s = T_Help
         \<and> consultation_finished_sem s = 0 \<and> step 1 s (Student 0) = None
         \<and> count_op (SemPost ta_ready_for_student) tr = 1
         \<and> count_at summoned s = 1 \<and> ta_ready_for_student_sem s = 0
         \<and> ops_of (Student 0) tr =
              [Sleep, MutexLock, ReadCount, IncCount, SemWait waiting_room_chairs, MutexUnlock,
               SemPost student_present_for_ta, SemWait ta_ready_for_student,
               SemPost waiting_room_chairs, MutexLock, DecCount, MutexUnlock]
         \<and> waiting_room_chairs_sem s = 1 \<and> num_students_in_chairs s = 0)"
proof -
  have c: "(0::int) \<le> 1" by simp
  have i: "(0::nat) < 1" by simp
  let ?pre = "[Student 0, Student 0, Student 0, Student 0, Student 0, Student 0, Student 0]"
  have ev0: "map_option (\<lambda>p. (student_at (snd p), ta_ready_for_student_sem (snd p),
                               waiting_room_chairs_sem (snd p)))
              (run 1 (init 1 1) ?pre) = Some ([S_AwaitTA], 0, 0)"
    by code_simp
  then obtain tr0 s0 where r0: "run 1 (init 1 1) ?pre = Some (tr0, s0)"
    and at0: "student_at s0 = [S_AwaitTA]" and z0: "ta_ready_for_student_sem s0 = 0"
    and w0: "waiting_room_chairs_sem s0 = 0"
    by auto
  from chair_vacated_at_summon [OF c r0 i] at0 z0
  have b0: "step 1 s0 (Student 0) = None" by simp
  have first: "\<exists>tr s. run 1 (init 1 1) ?pre = Some (tr, s)
         \<and> student_at s ! 0 = S_AwaitTA \<and> ta_ready_for_student_sem s = 0
         \<and> step 1 s (Student 0) = None \<and> waiting_room_chairs_sem s = 0"
    using r0 at0 z0 b0 w0 by auto
  have second: "run 1 (init 1 1)
        [Student 0, Student 0, Student 0, Student 0, Student 0, Student 0, Student 0,
         Student 0] = None"
    by code_simp
  let ?sched = "[Student 0, Student 0, Student 0, Student 0, Student 0, Student 0, Student 0,
              TA, TA,
              Student 0, Student 0, Student 0, Student 0, Student 0]"
  have ev: "map_option (\<lambda>p. (student_at (snd p), ta_at (snd p),
                              consultation_finished_sem (snd p),
                              ta_ready_for_student_sem (snd p)))
              (run 1 (init 1 1) ?sched) = Some ([S_Consult], T_Help, 0, 0)"
    by code_simp
  then obtain tr s where r: "run 1 (init 1 1) ?sched = Some (tr, s)"
    and at: "student_at s = [S_Consult]" and ta: "ta_at s = T_Help"
    and f: "consultation_finished_sem s = 0" and z: "ta_ready_for_student_sem s = 0"
    by auto
  from chair_vacated_at_summon [OF c r i] at f
  have b: "step 1 s (Student 0) = None"
    and su: "count_at summoned s + ta_ready_for_student_sem s
             = count_op (SemPost ta_ready_for_student) tr"
    and ops: "ops_of (Student 0) tr =
              [Sleep, MutexLock, ReadCount, IncCount, SemWait waiting_room_chairs, MutexUnlock,
               SemPost student_present_for_ta, SemWait ta_ready_for_student,
               SemPost waiting_room_chairs, MutexLock, DecCount, MutexUnlock]"
    and ch: "int (waiting_room_chairs_sem s) + int (count_at holds_chair s) = 1"
    and nu: "num_students_in_chairs s = int (count_at committed s)"
    by simp_all
  from at have cs: "count_at summoned s = 1" "count_at holds_chair s = 0"
    "count_at committed s = 0"
    by (simp_all add: count_at_def)
  have third: "\<exists>tr s. run 1 (init 1 1) ?sched = Some (tr, s)
         \<and> student_at s ! 0 = S_Consult \<and> ta_at s = T_Help
         \<and> consultation_finished_sem s = 0 \<and> step 1 s (Student 0) = None
         \<and> count_op (SemPost ta_ready_for_student) tr = 1
         \<and> count_at summoned s = 1 \<and> ta_ready_for_student_sem s = 0
         \<and> ops_of (Student 0) tr =
              [Sleep, MutexLock, ReadCount, IncCount, SemWait waiting_room_chairs, MutexUnlock,
               SemPost student_present_for_ta, SemWait ta_ready_for_student,
               SemPost waiting_room_chairs, MutexLock, DecCount, MutexUnlock]
         \<and> waiting_room_chairs_sem s = 1 \<and> num_students_in_chairs s = 0"
    using r at ta f b su cs z ops ch nu by auto
  from first second third show ?thesis by blast
qed

text \<open>
  C7 (a balking student is a no-op on the shared state beyond the failed check). If a
  student ends in its balked exit, then the operations it performed in the whole execution
  are the arrival sleep, the lock, the read of the counter and the unlock; each of its
  steps leaves the four semaphores and the counter unchanged; and it takes no further step.
\<close>

theorem balking_student_is_noop:
  assumes "run C (init C n) pre = Some (tr1, s1)"
    and "step C s1 (Student i) = Some (e, s2)"
    and "run C s2 post = Some (tr2, s3)"
    and "student_at s3 ! i = S_Balked"
  shows "ops_of (Student i) (tr1 @ (Student i, e) # tr2) =
           [Sleep, MutexLock, ReadCount, MutexUnlock]
         \<and> (e = Sleep \<or> e = MutexLock \<or> e = ReadCount \<or> e = MutexUnlock)
         \<and> waiting_room_chairs_sem s2 = waiting_room_chairs_sem s1
         \<and> student_present_for_ta_sem s2 = student_present_for_ta_sem s1
         \<and> ta_ready_for_student_sem s2 = ta_ready_for_student_sem s1
         \<and> consultation_finished_sem s2 = consultation_finished_sem s1
         \<and> num_students_in_chairs s2 = num_students_in_chairs s1
         \<and> step C s3 (Student i) = None"
proof -
  have i: "i < length (student_at s1)" using assms(2) by (simp add: step_student)
  have "run C s1 (Student i # post) = Some ((Student i, e) # tr2, s3)"
    using assms(2,3) by simp
  with assms(1) have full:
    "run C (init C n) (pre @ Student i # post) = Some (tr1 @ (Student i, e) # tr2, s3)"
    by (simp add: run_append)
  have len: "length (student_at s3) = length (student_at s1)"
    using run_length [OF assms(3)] step_length [OF assms(2)] by simp
  from run_trace_inv [OF full] have "order_inv (tr1 @ (Student i, e) # tr2) s3" by simp
  with i len assms(4) have h:
    "ops_of (Student i) (tr1 @ (Student i, e) # tr2) = [Sleep, MutexLock, ReadCount, MutexUnlock]"
    by (simp add: order_inv_def balk_path_def)
  have "e \<in> set (ops_of (Student i) (tr1 @ (Student i, e) # tr2))"
    by (simp add: ops_of_def)
  with h have "e \<in> set [Sleep, MutexLock, ReadCount, MutexUnlock]" by simp
  then have e: "e = Sleep \<or> e = MutexLock \<or> e = ReadCount \<or> e = MutexUnlock" by auto
  have "step C s3 (Student i) = None"
    using assms(4) by (simp add: step_def student_thread_func_def)
  with h e step_frame [OF assms(2) e] show ?thesis by simp
qed

theorem balking_student_is_noop_witness:
  "\<exists>tr1 s1 e s2 tr2 s3.
      run 1 (init 1 2)
        [Student 0, Student 0, Student 0, Student 0, Student 0, Student 0,
         Student 1, Student 1] = Some (tr1, s1)
      \<and> step 1 s1 (Student 1) = Some (e, s2)
      \<and> run 1 s2 [Student 1] = Some (tr2, s3)
      \<and> student_at s3 = [S_Announce, S_Balked]
      \<and> e = ReadCount
      \<and> ops_of (Student 1) (tr1 @ (Student 1, e) # tr2) =
           [Sleep, MutexLock, ReadCount, MutexUnlock]
      \<and> waiting_room_chairs_sem s2 = waiting_room_chairs_sem s1
      \<and> num_students_in_chairs s2 = num_students_in_chairs s1
      \<and> num_students_in_chairs s1 = 1"
proof -
  let ?pre = "[Student 0, Student 0, Student 0, Student 0, Student 0, Student 0,
         Student 1, Student 1]"
  have ev1: "map_option (\<lambda>p. num_students_in_chairs (snd p)) (run 1 (init 1 2) ?pre) = Some 1"
    by code_simp
  then obtain tr1 s1 where r1: "run 1 (init 1 2) ?pre = Some (tr1, s1)"
    and k: "num_students_in_chairs s1 = 1"
    by auto
  have ev: "map_option (\<lambda>p. (student_at (snd p), snd (last (butlast (fst p)))))
              (run 1 (init 1 2) (?pre @ [Student 1, Student 1]))
            = Some ([S_Announce, S_Balked], ReadCount)"
    by code_simp
  then obtain e s2 tr2 s3 where st: "step 1 s1 (Student 1) = Some (e, s2)"
    and r3: "run 1 s2 [Student 1] = Some (tr2, s3)"
    and full: "run 1 (init 1 2) (?pre @ [Student 1, Student 1]) = Some (tr1 @ (Student 1, e) # tr2, s3)"
    using r1 by (auto simp: run_append split: option.splits)
  from full ev have at: "student_at s3 = [S_Announce, S_Balked]" by simp
  then have b: "student_at s3 ! 1 = S_Balked" by simp
  from r3 have "length tr2 = 1" by (auto split: option.splits)
  with full ev have e: "e = ReadCount"
    by (cases tr2) (simp_all add: butlast_append)
  from balking_student_is_noop [OF r1 st r3 b] r1 st r3 at e k show ?thesis by blast
qed

text \<open>
  C8 (capacity 0). In every execution with capacity 0 the counter is 0, the TA never takes
  a step (it is blocked on the presence semaphore, on which nothing is ever posted),
  every student is on the balking path, the execution has at most four steps per
  student, and when no thread can take a step every student has balked.
\<close>

theorem zero_capacity_all_balk:
  assumes "run 0 (init 0 n) sched = Some (tr, s)"
  shows "num_students_in_chairs s = 0
         \<and> student_present_for_ta_sem s = 0 \<and> ta_at s = T_Wait \<and> step 0 s TA = None
         \<and> (\<forall>x \<in> set tr. fst x \<noteq> TA)
         \<and> count_op (SemPost student_present_for_ta) tr = 0
         \<and> (\<forall>i < n. student_at s ! i \<in> {S_Arrive, S_Lock, S_Check, S_BalkUnlock, S_Balked})
         \<and> length sched \<le> 4 * n
         \<and> ((\<forall>a. step 0 s a = None) \<longrightarrow> (\<forall>i < n. student_at s ! i = S_Balked))"
proof -
  from run_state_inv [OF _ assms] have n: "length (student_at s) = n" and m: "mutex_inv s"
    by simp_all
  from run_closed_inv [OF assms] have bp: "\<forall>j < length (student_at s). on_balk_path (student_at s ! j)"
    and z: "num_students_in_chairs s = 0" "student_present_for_ta_sem s = 0" "ta_at s = T_Wait"
    and nta: "\<forall>x \<in> set tr. fst x \<noteq> TA"
    and len: "length tr + sum_list (map remaining (student_at s)) = 4 * length (student_at s)"
    by (simp_all add: closed_inv_def)
  have ta: "step 0 s TA = None"
    using z by (simp add: step_def ta_thread_func_def sem_wait_def)
  have "\<forall>j < length (student_at s). \<not> announced (student_at s ! j)"
  proof (intro allI impI)
    fix j assume "j < length (student_at s)"
    with bp have "on_balk_path (student_at s ! j)" by simp
    then show "\<not> announced (student_at s ! j)" by (cases "student_at s ! j") simp_all
  qed
  from count_at_zero [OF this] run_trace_inv [OF assms]
  have np: "count_op (SemPost student_present_for_ta) tr = 0"
    by (simp add: student_account_def)
  have locs: "\<forall>i < n. student_at s ! i \<in> {S_Arrive, S_Lock, S_Check, S_BalkUnlock, S_Balked}"
    using bp n by (simp add: on_balk_path_def)
  have bound: "length sched \<le> 4 * n"
    using len run_trace_length [OF assms] n by simp
  have fin: "\<forall>i < n. student_at s ! i = S_Balked" if "\<forall>a. step 0 s a = None"
    using stuck_all_balked [OF m bp that] n by simp
  show ?thesis using z ta nta np locs bound fin by blast
qed

theorem zero_capacity_all_balk_witness:
  "\<exists>tr s. run 0 (init 0 2)
             [Student 0, Student 1, Student 0, Student 0, Student 0, Student 1, Student 1,
              Student 1] = Some (tr, s)
         \<and> (\<forall>a. step 0 s a = None)
         \<and> student_at s = [S_Balked, S_Balked]
         \<and> num_students_in_chairs s = 0
         \<and> count_op (SemPost student_present_for_ta) tr = 0"
proof -
  let ?sched = "[Student 0, Student 1, Student 0, Student 0, Student 0, Student 1, Student 1,
              Student 1]"
  have ev: "map_option (\<lambda>p. (student_at (snd p), ta_at (snd p), student_present_for_ta_sem (snd p)))
              (run 0 (init 0 2) ?sched) = Some ([S_Balked, S_Balked], T_Wait, 0)"
    by code_simp
  then obtain tr s where r: "run 0 (init 0 2) ?sched = Some (tr, s)"
    and at: "student_at s = [S_Balked, S_Balked]" and ta: "ta_at s = T_Wait"
    and p: "student_present_for_ta_sem s = 0"
    by auto
  have stuck: "step 0 s a = None" for a
  proof (cases a)
    case TA
    then show ?thesis using ta p by (simp add: step_def ta_thread_func_def sem_wait_def)
  next
    case (Student i)
    then show ?thesis using at
      by (cases i) (auto simp: step_def student_thread_func_def less_Suc_eq)
  qed
  from zero_capacity_all_balk [OF r]
  have "num_students_in_chairs s = 0" "count_op (SemPost student_present_for_ta) tr = 0"
    by simp_all
  with r stuck at show ?thesis by blast
qed

text \<open>
  C9 states that an invalid configuration (capacity \<open>\<le> 0\<close>) fails with a configuration
  error before any actor is started. \<open>main\<close> has no such check: with capacity 0 it
  starts the TA and every student, and it returns 0 once they have all balked.
\<close>

theorem main_accepts_zero_capacity:
  "main 0 2 True [] [] = Started (init 0 2) [TA, Student 0, Student 1]
   \<and> map_option (\<lambda>p. main_join 0 2 [] [] (snd p))
       (run 0 (init 0 2)
          [Student 0, Student 1, Student 0, Student 0, Student 0, Student 1, Student 1,
           Student 1]) = Some (Returned 0)"
proof (intro conjI)
  show "main 0 2 True [] [] = Started (init 0 2) [TA, Student 0, Student 1]"
    by (simp add: main_def INT_MAX_def create_students.simps)
  show "map_option (\<lambda>p. main_join 0 2 [] [] (snd p))
       (run 0 (init 0 2)
          [Student 0, Student 1, Student 0, Student 0, Student 0, Student 1, Student 1,
           Student 1]) = Some (Returned 0)"
    by code_simp
qed

text \<open>
  C9, amended. A chair capacity of 0 is not rejected, and nothing is validated at run
  time: for every capacity \<open>0 \<le> C \<le> INT_MAX\<close> and every student count \<open>0 \<le> N\<close>, \<open>main\<close>
  sets up the shared objects and, when the TA thread is created, starts the TA and one
  student for each loop index below the count whose allocation and creation succeed;
  its only failure exit is status 1, when the TA thread cannot be created, before any
  student is started. When every student was started and has left, the join loop
  passes and \<open>main\<close> returns 0; with capacity 0 this is the case as soon as no thread
  can take a step. (A negative count is not a program, and a negative capacity leaves
  the chair semaphore uninitialised; neither is part of the statement.)
\<close>

theorem main_starts_without_validation:
  assumes "0 \<le> C" "C \<le> INT_MAX" "0 \<le> N"
  shows "main C N ta_created malloc_fails create_fails =
           (if ta_created
            then Started (init C (nat N))
                   (TA # map (\<lambda>k. Student (nat k))
                          (filter (\<lambda>k. k \<notin> set malloc_fails \<and> k \<notin> set create_fails)
                             [0..N - 1]))
            else Exit_Status 1)
         \<and> (\<forall>s. length (student_at s) = nat N \<and>
                 (\<forall>i < nat N. student_at s ! i = S_Served \<or> student_at s ! i = S_Balked)
                 \<longrightarrow> main_join 0 N [] [] s = Returned 0)
         \<and> (C = 0 \<longrightarrow>
               (\<forall>sched tr s. run 0 (init 0 (nat N)) sched = Some (tr, s) \<and>
                   (\<forall>a. step 0 s a = None)
                   \<longrightarrow> (\<forall>i < nat N. student_at s ! i = S_Balked)
                       \<and> main_join 0 N [] [] s = Returned 0))"
proof -
  have start: "main C N ta_created malloc_fails create_fails =
           (if ta_created
            then Started (init C (nat N))
                   (TA # map (\<lambda>k. Student (nat k))
                          (filter (\<lambda>k. k \<notin> set malloc_fails \<and> k \<notin> set create_fails)
                             [0..N - 1]))
            else Exit_Status 1)"
    using assms by (simp add: main_def create_students_closed)
  have join: "main_join 0 N [] [] s = Returned 0"
    if l: "length (student_at s) = nat N"
      and a: "\<forall>i < nat N. student_at s ! i = S_Served \<or> student_at s ! i = S_Balked" for s
  proof (rule main_join_all_left, intro allI impI)
    fix k :: int assume k: "0 \<le> k \<and> k < N"
    then have "nat k < nat N" by simp
    with l a show "k \<notin> set [] \<and> k \<notin> set [] \<and> nat k < length (student_at s) \<and>
             (student_at s ! nat k = S_Served \<or> student_at s ! nat k = S_Balked)"
      by simp
  qed
  have zero: "(\<forall>i < nat N. student_at s ! i = S_Balked) \<and> main_join 0 N [] [] s = Returned 0"
    if r: "run 0 (init 0 (nat N)) sched = Some (tr, s)" and stuck: "\<forall>a. step 0 s a = None"
    for sched tr s
  proof -
    from run_state_inv [OF _ r] have l: "length (student_at s) = nat N" and m: "mutex_inv s"
      by simp_all
    from run_closed_inv [OF r]
    have bp: "\<forall>j < length (student_at s). on_balk_path (student_at s ! j)"
      by (simp add: closed_inv_def)
    have b: "\<forall>i < nat N. student_at s ! i = S_Balked"
      using stuck_all_balked [OF m bp stuck] l by simp
    with join [OF l] show ?thesis by simp
  qed
  show ?thesis using start join zero by blast
qed

theorem main_starts_without_validation_witness:
  "main 0 2 True [] [] = Started (init 0 2) [TA, Student 0, Student 1]
   \<and> main 0 2 False [] [] = Exit_Status 1
   \<and> main 5 10 True [4] [7] =
       Started (init 5 10)
         [TA, Student 0, Student 1, Student 2, Student 3, Student 5, Student 6, Student 8,
          Student 9]
   \<and> (\<exists>tr s. run 0 (init 0 2)
                [Student 0, Student 1, Student 0, Student 0, Student 0, Student 1, Student 1,
                 Student 1] = Some (tr, s)
            \<and> (\<forall>a. step 0 s a = None)
            \<and> student_at s = [S_Balked, S_Balked]
            \<and> main_join 0 2 [] [] s = Returned 0)"
proof -
  have u: "[0..10 - 1] = [0, 1, 2, 3, 4, 5, 6, 7, 8, 9::int]" "[0..2 - 1] = [0, 1::int]"
    by code_simp+
  have h0: "(0::int) \<le> 0" "(0::int) \<le> INT_MAX" "(0::int) \<le> 2"
    by (simp_all add: INT_MAX_def)
  have h5: "(0::int) \<le> 5" "(5::int) \<le> INT_MAX" "(0::int) \<le> 10"
    by (simp_all add: INT_MAX_def)
  have a: "main 0 2 True [] [] = Started (init 0 2) [TA, Student 0, Student 1]"
    using main_starts_without_validation [OF h0, of True "[]" "[]"] u by simp
  have b: "main 0 2 False [] [] = Exit_Status 1"
    using main_starts_without_validation [OF h0, of False "[]" "[]"] by simp
  have c: "main 5 10 True [4] [7] =
       Started (init 5 10)
         [TA, Student 0, Student 1, Student 2, Student 3, Student 5, Student 6, Student 8,
          Student 9]"
    using main_starts_without_validation [OF h5, of True "[4]" "[7]"] u by simp
  let ?sched = "[Student 0, Student 1, Student 0, Student 0, Student 0, Student 1, Student 1,
                 Student 1]"
  have ev: "map_option (\<lambda>p. (student_at (snd p), ta_at (snd p), student_present_for_ta_sem (snd p)))
              (run 0 (init 0 2) ?sched) = Some ([S_Balked, S_Balked], T_Wait, 0)"
    by code_simp
  then obtain tr s where r: "run 0 (init 0 2) ?sched = Some (tr, s)"
    and at: "student_at s = [S_Balked, S_Balked]" and ta: "ta_at s = T_Wait"
    and p: "student_present_for_ta_sem s = 0"
    by auto
  have stuck: "\<forall>a. step 0 s a = None"
  proof
    fix a show "step 0 s a = None"
    proof (cases a)
      case TA
      then show ?thesis using ta p by (simp add: step_def ta_thread_func_def sem_wait_def)
    next
      case (Student i)
      then show ?thesis using at
        by (cases i) (auto simp: step_def student_thread_func_def less_Suc_eq)
    qed
  qed
  have r': "run 0 (init 0 (nat 2)) ?sched = Some (tr, s)" using r by simp
  from main_starts_without_validation [OF h0, of True "[]" "[]"] r' stuck
  have "main_join 0 2 [] [] s = Returned 0" by blast
  with a b c r stuck at show ?thesis by blast
qed

end
